theory Spec2Isabelle
  imports Complex_Main "HOL-Library.Sublist"
begin

section \<open>Mail Exchange: the processing pipeline of \<open>index.ts\<close>\<close>

text \<open>
  The development embeds the pipeline of the mail forwarder: the dedup store
  (\<open>saveForwardedId\<close>, \<open>isAlreadyForwarded\<close>, \<open>getMessageId\<close>), the access filter
  (\<open>isSenderAllowed\<close>), the rule matcher (\<open>matchRule\<close>), the delivery engine
  (\<open>sendToRecipient\<close>, \<open>forwardEmail\<close>), the reporter (\<open>sendReplyNotification\<close>) and
  the orchestrator (\<open>processEmail\<close>).

  Conventions of the embedding.
  \<^item> An optional JavaScript value (\<open>undefined\<close>, \<open>null\<close>, a missing field) is \<open>None\<close>.
    JavaScript truthiness of an optional string is \<open>truthy\<close>: the empty string is falsy.
  \<^item> Strings are \<open>char list\<close>; \<open>toLowerCase\<close> lowers the ASCII letters only.
  \<^item> Clock readings and the loop counter of the retry loop are integers. A number of
    the configuration (\<open>retryCount\<close>) is read from JSON without validation and is any
    finite number, integer or not: it is the rational its JSON literal denotes.
  \<^item> Everything the code does to the outside world is recorded in a trace of events;
    the outside world's answers (clock, random numbers, what the transport says to each
    call) are read from an environment record.
  \<^item> Appending to the log file and to the dedup file is assumed to succeed.
\<close>

subsection \<open>JavaScript strings and numbers\<close>

definition truthy :: "string option \<Rightarrow> bool" where
  "truthy v = (case v of None \<Rightarrow> False | Some s \<Rightarrow> s \<noteq> [])"

text \<open>\<open>a || b\<close> on optional strings with a string default.\<close>

definition orElse :: "string option \<Rightarrow> string \<Rightarrow> string" where
  "orElse v d = (case v of None \<Rightarrow> d | Some s \<Rightarrow> if s = [] then d else s)"

definition lowerChar :: "char \<Rightarrow> char" where
  "lowerChar c =
     (let n = (of_char c :: nat) in if 65 \<le> n \<and> n \<le> 90 then char_of (n + 32) else c)"

definition toLowerCase :: "string \<Rightarrow> string" where
  "toLowerCase s = map lowerChar s"

text \<open>\<open>s.includes(t)\<close>: \<open>t\<close> occurs in \<open>s\<close> as a contiguous run of characters.\<close>

fun str_includes :: "string \<Rightarrow> string \<Rightarrow> bool" where
  "str_includes [] t = (t = [])"
| "str_includes (c # cs) t = (prefix t (c # cs) \<or> str_includes cs t)"

text \<open>Template-literal rendering of a non-negative integer and of an integer.\<close>

definition digitChar :: "nat \<Rightarrow> char" where
  "digitChar d = char_of (48 + d)"

fun showNat :: "nat \<Rightarrow> string" where
  "showNat n = (if n < 10 then [digitChar n] else showNat (n div 10) @ [digitChar (n mod 10)])"

definition showInt :: "int \<Rightarrow> string" where
  "showInt i = (if i < 0 then CHR ''-'' # showNat (nat (- i)) else showNat (nat i))"

text \<open>
  Rendering of a configuration number: as \<open>showInt\<close> when it is an integer, and with its
  decimal fraction otherwise (at most 17 fraction digits; exponent notation is not
  modelled). Only log lines contain it.
\<close>

fun fracDigits :: "nat \<Rightarrow> rat \<Rightarrow> string" where
  "fracDigits 0 r = []"
| "fracDigits (Suc n) r =
     (if r = 0 then []
      else (let d = \<lfloor>10 * r\<rfloor> in digitChar (nat d) # fracDigits n (10 * r - of_int d)))"

definition showAbs :: "rat \<Rightarrow> string" where
  "showAbs q =
     showNat (nat \<lfloor>q\<rfloor>)
     @ (if q = of_int \<lfloor>q\<rfloor> then [] else CHR ''.'' # fracDigits 17 (q - of_int \<lfloor>q\<rfloor>))"

definition showNumber :: "rat \<Rightarrow> string" where
  "showNumber q = (if q < 0 then CHR ''-'' # showAbs (- q) else showAbs q)"

subsection \<open>Types\<close>

record forward_rule =
  tag :: string
  recipients :: "string list"

text \<open>The fields of \<open>Config\<close> that the pipeline reads (\<open>smtpUser\<close> is \<open>smtp.auth.user\<close>).\<close>

record config =
  smtpUser :: string
  rules :: "forward_rule list"
  forwardPrefix :: "string option"
  allowedSenders :: "string list option"
  retryCount :: "rat option"

record attachment =
  filename :: "string option"
  content :: string
  contentType :: string

text \<open>
  The fields of \<open>ParsedMail\<close> that the pipeline reads: \<open>headerMessageId\<close> is
  \<open>mail.headers?.get("message-id")?.toString()\<close>, \<open>fromText\<close> is \<open>mail.from?.text\<close>,
  \<open>fromAddress\<close> is \<open>mail.from?.value?.[0]?.address\<close>, and \<open>mailHtml\<close> is \<open>None\<close>
  when \<open>mail.html\<close> is \<open>false\<close>.
\<close>

record parsed_mail =
  messageId :: "string option"
  headerMessageId :: "string option"
  mailSubject :: "string option"
  fromText :: "string option"
  fromAddress :: "string option"
  mailText :: "string option"
  mailHtml :: "string option"
  mailAttachments :: "attachment list"

record recipient_result =
  email :: string
  success :: bool
  error :: "string option"
  attempts :: rat

record reply_data =
  replySubject :: string
  replyResults :: "recipient_result list"
  replyDuration :: int
  replyTimestamp :: string

datatype task_status = Success | Failed

record forward_task =
  task_id :: int
  task_timestamp :: string
  task_subject :: string
  task_from :: string
  matchedTag :: string
  task_recipients :: "string list"
  status :: task_status
  task_error :: "string option"

text \<open>The message handed to \<open>transporter.sendMail\<close> by \<open>sendToRecipient\<close>.\<close>

record outgoing =
  out_from :: string
  out_to :: string
  out_subject :: "string option"
  out_text :: string
  out_html :: "string option"
  out_attachments :: "attachment list"

subsection \<open>Effects\<close>

text \<open>
  What the transport answers to one \<open>sendMail\<close> call: the promise resolves, or it rejects
  with an error whose message (\<open>err.message\<close>, or \<open>String(err)\<close>) is the string.
\<close>

datatype send_outcome = Accepted | Rejected string

datatype level = INFO | WARN | ERROR

text \<open>
  The events of one sequential activity: a call of \<open>log\<close>, a \<open>sendMail\<close> call of
  \<open>sendToRecipient\<close> with its outcome, the \<open>sendMail\<close> call of \<open>sendReplyNotification\<close>
  (sender, receiver and the \<open>ReplyData\<close> given to the templates, which are not modelled
  further) with its outcome, a \<open>setTimeout\<close> wait in milliseconds, and the append of a line
  to the dedup file.
\<close>

datatype io_event =
    Log level string
  | SendMail outgoing send_outcome
  | SendReply string string reply_data send_outcome
  | Wait int
  | AppendForwarded string

text \<open>
  \<open>processEmail\<close> is sequential except inside \<open>Promise.all\<close>, where one activity per
  recipient runs and the activities interleave in an order the code does not fix. A trace
  is therefore a list of sequential events and of parallel blocks; a parallel block holds
  the event sequence of each recipient, in recipient order, and says nothing about how
  they interleave.
\<close>

datatype event = Seq io_event | Par "io_event list list"

text \<open>
  The answers of the outside world during one run of \<open>processEmail\<close>, one field per place
  where the code asks: \<open>Date.now()\<close> at the start, \<open>Date.now()\<close> and
  \<open>Math.random()\<close> (already rendered as a string) inside \<open>getMessageId\<close>, the ISO
  timestamp of the task, the transport's outcome for the attempt numbered \<open>n\<close> of the
  recipient at index \<open>i\<close> (\<open>transport env i n\<close>), \<open>Date.now()\<close> after delivery, and the
  timestamp and transport outcome of the reply notification. Within one run every pair
  of recipient index and attempt number is sent at most once, so this table can express
  every behaviour of the transport, whatever the interleaving of the recipients.
\<close>

record run_env =
  startTime :: int
  idTime :: int
  idRandom :: string
  taskTimestamp :: string
  transport :: "nat \<Rightarrow> int \<Rightarrow> send_outcome"
  endTime :: int
  notifyTimestamp :: string
  notifyOutcome :: send_outcome

text \<open>The global state: \<open>forwardedIds\<close>, \<open>tasks\<close> and \<open>taskId\<close>.\<close>

record state =
  forwardedIds :: "string set"
  tasks :: "forward_task list"
  taskId :: int

definition initialState :: state where
  "initialState = \<lparr>forwardedIds = {}, tasks = [], taskId = 0\<rparr>"

subsection \<open>Dedup store\<close>

definition saveForwardedId :: "state \<Rightarrow> string \<Rightarrow> string \<Rightarrow> state \<times> event list" where
  "saveForwardedId st mid subject =
     (st\<lparr>forwardedIds := insert mid (forwardedIds st)\<rparr>,
      [Seq (AppendForwarded (mid @ [CHR 0x0A])),
       Seq (Log INFO (''Marked as processed: '' @ subject))])"

text \<open>\<open>mail.messageId || mail.headers?.get("message-id")?.toString()\<close>\<close>

definition rawMessageId :: "parsed_mail \<Rightarrow> string option" where
  "rawMessageId mail = (if truthy (messageId mail) then messageId mail else headerMessageId mail)"

definition isAlreadyForwarded :: "state \<Rightarrow> parsed_mail \<Rightarrow> bool" where
  "isAlreadyForwarded st mail =
     (case rawMessageId mail of
        None \<Rightarrow> False
      | Some mid \<Rightarrow> if mid \<noteq> [] then mid \<in> forwardedIds st else False)"

definition getMessageId :: "run_env \<Rightarrow> parsed_mail \<Rightarrow> string" where
  "getMessageId env mail =
     orElse (rawMessageId mail) (showInt (idTime env) @ ''-'' @ idRandom env)"

subsection \<open>Access filter\<close>

definition isSenderAllowed :: "config \<Rightarrow> string \<Rightarrow> bool" where
  "isSenderAllowed cfg addr0 =
     (case allowedSenders cfg of
        None \<Rightarrow> True
      | Some senders \<Rightarrow>
          if length senders = 0 then True
          else (let addr = toLowerCase addr0
                in list_ex (\<lambda>s. str_includes addr (toLowerCase s)) senders))"

subsection \<open>Rule matcher\<close>

text \<open>The \<open>for ... of\<close> loop of \<open>matchRule\<close> over the rules still to be tried.\<close>

fun matchRuleLoop :: "string \<Rightarrow> forward_rule list \<Rightarrow> forward_rule option" where
  "matchRuleLoop lowerSubject [] = None"
| "matchRuleLoop lowerSubject (rule # rest) =
     (if str_includes lowerSubject (toLowerCase (tag rule)) then Some rule
      else matchRuleLoop lowerSubject rest)"

definition matchRule :: "config \<Rightarrow> string \<Rightarrow> forward_rule option" where
  "matchRule cfg subject = matchRuleLoop (toLowerCase subject) (rules cfg)"

subsection \<open>Delivery engine\<close>

definition maxAttemptsOf :: "config \<Rightarrow> rat" where
  "maxAttemptsOf cfg = (case retryCount cfg of None \<Rightarrow> 3 | Some n \<Rightarrow> n)"

text \<open>
  The argument of \<open>transporter.sendMail\<close> in \<open>sendToRecipient\<close>. An absent subject under
  a configured prefix is rendered by the template literal as \<open>undefined\<close>.
\<close>

definition forwardMessage :: "config \<Rightarrow> parsed_mail \<Rightarrow> string \<Rightarrow> outgoing" where
  "forwardMessage cfg mail recipient =
     \<lparr>out_from = smtpUser cfg,
      out_to = recipient,
      out_subject =
        (case forwardPrefix cfg of
           None \<Rightarrow> mailSubject mail
         | Some p \<Rightarrow>
             if p = [] then mailSubject mail
             else Some (p @ '' '' @ (case mailSubject mail of None \<Rightarrow> ''undefined'' | Some s \<Rightarrow> s))),
      out_text = orElse (mailText mail) [],
      out_html = (if truthy (mailHtml mail) then mailHtml mail else None),
      out_attachments = mailAttachments mail\<rparr>"

text \<open>
  The retry loop of \<open>sendToRecipient\<close>, entered with the loop variable \<open>attempt\<close> and the
  current \<open>lastError\<close>; \<open>answers n\<close> is what the transport says to attempt \<open>n\<close>. The
  loop variable is an integer, \<open>maxAttempts\<close> is the configured number, and the two
  comparisons \<open>attempt <= maxAttempts\<close> and \<open>attempt < maxAttempts\<close> are comparisons of
  numbers.
\<close>

function sendLoop ::
  "config \<Rightarrow> (int \<Rightarrow> send_outcome) \<Rightarrow> parsed_mail \<Rightarrow> string \<Rightarrow> rat \<Rightarrow> int \<Rightarrow> string
     \<Rightarrow> recipient_result \<times> io_event list" where
  "sendLoop cfg answers mail recipient maxAttempts attempt lastError =
     (if of_int attempt \<le> maxAttempts then
        (case answers attempt of
           Accepted \<Rightarrow>
             (\<lparr>email = recipient, success = True, error = None, attempts = of_int attempt\<rparr>,
              [SendMail (forwardMessage cfg mail recipient) Accepted,
               Log INFO (''  -> '' @ recipient @ '': OK''
                  @ (if attempt > 1 then '' (attempt '' @ showInt attempt @ '')'' else []))])
         | Rejected msg \<Rightarrow>
             (let (res, evs) = sendLoop cfg answers mail recipient maxAttempts (attempt + 1) msg
              in (res,
                  [SendMail (forwardMessage cfg mail recipient) (Rejected msg),
                   Log WARN (''  -> '' @ recipient @ '': RETRY '' @ showInt attempt @ ''/''
                      @ showNumber maxAttempts @ '' - '' @ msg)]
                  @ (if of_int attempt < maxAttempts then [Wait (1000 * attempt)] else [])
                  @ evs)))
      else
        (\<lparr>email = recipient, success = False, error = Some lastError, attempts = maxAttempts\<rparr>,
         [Log ERROR (''  -> '' @ recipient @ '': FAILED after '' @ showNumber maxAttempts
            @ '' attempts - '' @ lastError)]))"
  by pat_completeness auto
termination
  by (relation "measure (\<lambda>(cfg, answers, mail, recipient, maxAttempts, attempt, lastError).
        nat (\<lfloor>maxAttempts\<rfloor> + 1 - attempt))") (auto simp: le_floor_iff)

definition sendToRecipient ::
  "config \<Rightarrow> (int \<Rightarrow> send_outcome) \<Rightarrow> parsed_mail \<Rightarrow> string \<Rightarrow> string
     \<Rightarrow> recipient_result \<times> io_event list" where
  "sendToRecipient cfg answers mail recipient sender =
     sendLoop cfg answers mail recipient (maxAttemptsOf cfg) 1 []"

text \<open>
  \<open>Promise.all\<close> over the mapped recipients: the results come back in the order of the
  recipient list, whatever the order in which the sends complete.
\<close>

definition forwardEmail ::
  "config \<Rightarrow> (nat \<Rightarrow> int \<Rightarrow> send_outcome) \<Rightarrow> parsed_mail \<Rightarrow> forward_rule \<Rightarrow> string
     \<Rightarrow> recipient_result list \<times> event list" where
  "forwardEmail cfg answers mail rule sender =
     (let runs = map (\<lambda>(i, r). sendToRecipient cfg (answers i) mail r sender)
                     (enumerate 0 (recipients rule))
      in (map fst runs,
          [Seq (Log INFO (''Forwarding from='' @ sender @ '' tag='' @ tag rule @ '' to=''
                  @ showNat (length (recipients rule)) @ '' recipients'')),
           Par (map snd runs)]))"

subsection \<open>Outcome reporter\<close>

text \<open>The promise of \<open>sendReplyNotification\<close> resolves (\<open>Accepted\<close>) or rejects.\<close>

definition sendReplyNotification ::
  "config \<Rightarrow> run_env \<Rightarrow> parsed_mail \<Rightarrow> recipient_result list \<Rightarrow> int \<Rightarrow> send_outcome \<times> event list" where
  "sendReplyNotification cfg env mail results duration =
     (case fromAddress mail of
        None \<Rightarrow> (Accepted, [])
      | Some replyTo \<Rightarrow>
          if replyTo = [] then (Accepted, [])
          else
            (let data = \<lparr>replySubject = orElse (mailSubject mail) ''(no subject)'',
                         replyResults = results,
                         replyDuration = duration,
                         replyTimestamp = notifyTimestamp env\<rparr>
             in (notifyOutcome env,
                 [Seq (SendReply (smtpUser cfg) replyTo data (notifyOutcome env))])))"

subsection \<open>Pipeline orchestrator\<close>

text \<open>
  How a run of \<open>processEmail\<close> ends: at one of its three early returns, at the end of the
  function, or with its promise rejected by the error that \<open>sendReplyNotification\<close> threw.
\<close>

datatype outcome = SkippedDuplicate | SenderNotAllowed | NoMatchingRule | Forwarded | Thrown string

text \<open>\<open>tasks.unshift(task); if (tasks.length > 100) tasks.pop();\<close>\<close>

definition unshiftTask :: "forward_task \<Rightarrow> forward_task list \<Rightarrow> forward_task list" where
  "unshiftTask task ts = (let ts' = task # ts in if length ts' > 100 then butlast ts' else ts')"


definition processEmail ::
  "config \<Rightarrow> run_env \<Rightarrow> state \<Rightarrow> parsed_mail \<Rightarrow> outcome \<times> state \<times> event list" where
  "processEmail cfg env st mail =
     (let subject = orElse (mailSubject mail) ''(no subject)'';
          sender = orElse (fromText mail) ''unknown'';
          fromAddr = orElse (fromAddress mail) [];
          mid = getMessageId env mail;
          mailSize = showNat (((case mailText mail of None \<Rightarrow> 0 | Some t \<Rightarrow> length t) + 512) div 1024)
                       @ ''KB'';
          attachCount = length (mailAttachments mail);
          ev0 = [Seq (Log INFO (''New mail: '' @ [CHR 0x22] @ subject @ [CHR 0x22] @ '' from=''
                   @ fromAddr @ '' size='' @ mailSize @ '' attachments='' @ showNat attachCount))]
      in
        if isAlreadyForwarded st mail then
          (SkippedDuplicate, st,
           ev0 @ [Seq (Log INFO (''Already forwarded (skip): '' @ subject))])
        else if \<not> isSenderAllowed cfg fromAddr then
          (let (st1, evs) = saveForwardedId st mid subject
           in (SenderNotAllowed, st1,
               ev0 @ [Seq (Log WARN (''Sender not allowed: '' @ fromAddr @ '' - '' @ subject))] @ evs))
        else
          (case matchRule cfg subject of
             None \<Rightarrow>
               (let (st1, evs) = saveForwardedId st mid subject
                in (NoMatchingRule, st1,
                    ev0 @ [Seq (Log INFO (''No matching rule for: '' @ subject))] @ evs))
           | Some rule \<Rightarrow>
               (let st1 = st\<lparr>taskId := taskId st + 1\<rparr>;
                    task = \<lparr>task_id = taskId st1,
                            task_timestamp = taskTimestamp env,
                            task_subject = subject,
                            task_from = sender,
                            matchedTag = tag rule,
                            task_recipients = recipients rule,
                            status = Success,
                            task_error = None\<rparr>;
                    (results, fevs) = forwardEmail cfg (transport env) mail rule fromAddr;
                    duration = endTime env - startTime env;
                    successCount = length (filter success results);
                    failCount = length results - successCount;
                    summary = showNat successCount @ ''/'' @ showNat (length results) @ '' success'';
                    task' = (if failCount > 0
                             then task\<lparr>status := Failed,
                                       task_error := Some (showNat failCount @ ''/''
                                          @ showNat (length results) @ '' failed'')\<rparr>
                             else task);
                    lev = (if failCount > 0
                           then Log ERROR (''Forward completed: '' @ subject @ '' - '' @ summary
                                  @ '', '' @ showNat failCount @ '' failed ('' @ showInt duration @ ''ms)'')
                           else Log INFO (''Forward completed: '' @ subject @ '' - '' @ summary
                                  @ '' ('' @ showInt duration @ ''ms)''));
                    (st2, sevs) = saveForwardedId st1 mid subject;
                    (sent, nevs) = sendReplyNotification cfg env mail results duration;
                    trace = ev0 @ fevs @ [Seq lev] @ sevs @ nevs
                in (case sent of
                      Rejected err \<Rightarrow> (Thrown err, st2, trace)
                    | Accepted \<Rightarrow>
                        (Forwarded, st2\<lparr>tasks := unshiftTask task' (tasks st2)\<rparr>, trace)))))"

subsection \<open>Observing a recipient's trace\<close>

text \<open>
  The delivery steps of a recipient's trace, in order: each transport attempt with
  whether it was accepted, and each backoff wait with its length in milliseconds.
\<close>

datatype step = Attempt bool | Backoff int

fun stepsOf :: "io_event \<Rightarrow> step list" where
  "stepsOf (SendMail m Accepted) = [Attempt True]"
| "stepsOf (SendMail m (Rejected e)) = [Attempt False]"
| "stepsOf (Wait ms) = [Backoff ms]"
| "stepsOf (Log l s) = []"
| "stepsOf (SendReply f t d r) = []"
| "stepsOf (AppendForwarded l) = []"

definition timeline :: "io_event list \<Rightarrow> step list" where
  "timeline evs = concat (map stepsOf evs)"

definition attemptsMade :: "io_event list \<Rightarrow> nat" where
  "attemptsMade evs =
     length (filter (\<lambda>s. case s of Attempt b \<Rightarrow> True | Backoff ms \<Rightarrow> False) (timeline evs))"

text \<open>A failed attempt number \<open>k\<close> followed by its backoff wait.\<close>

definition failedRound :: "int \<Rightarrow> step list" where
  "failedRound k = [Attempt False, Backoff (1000 * k)]"

text \<open>
  A failed attempt number \<open>k\<close> under the limit \<open>maxAttempts\<close>: the wait follows when
  \<open>k < maxAttempts\<close>.
\<close>

definition failedAttempt :: "rat \<Rightarrow> int \<Rightarrow> step list" where
  "failedAttempt maxAttempts k =
     Attempt False # (if of_int k < maxAttempts then [Backoff (1000 * k)] else [])"

subsection \<open>Observing the trace of a run\<close>

text \<open>
  The events of a trace with the parallel blocks flattened (recipient after recipient),
  for properties that do not depend on how the recipients interleave.
\<close>

fun ioEvents :: "event \<Rightarrow> io_event list" where
  "ioEvents (Seq e) = [e]"
| "ioEvents (Par ess) = concat ess"

definition allEvents :: "event list \<Rightarrow> io_event list" where
  "allEvents tr = concat (map ioEvents tr)"

fun isLog :: "io_event \<Rightarrow> bool" where
  "isLog (Log l s) = True"
| "isLog e = False"

fun isSendMail :: "io_event \<Rightarrow> bool" where
  "isSendMail (SendMail m r) = True"
| "isSendMail e = False"

fun isSendReply :: "io_event \<Rightarrow> bool" where
  "isSendReply (SendReply f t d r) = True"
| "isSendReply e = False"

fun isAppendForwarded :: "io_event \<Rightarrow> bool" where
  "isAppendForwarded (AppendForwarded l) = True"
| "isAppendForwarded e = False"

subsection \<open>Example inputs\<close>

text \<open>The configuration of the README, with a second rule whose tag overlaps the first.\<close>

definition cfgW :: config where
  "cfgW = \<lparr>smtpUser = ''exchange@example.com'',
           rules = [\<lparr>tag = ''[PHOTO]'', recipients = [''a@x.com'', ''b@x.com'']\<rparr>,
                    \<lparr>tag = ''photo'', recipients = [''c@x.com'']\<rparr>],
           forwardPrefix = Some ''[Fwd]'',
           allowedSenders = Some [''@Example.com''],
           retryCount = None\<rparr>"

text \<open>The same configuration with a retry count of one, and with a fractional one.\<close>

definition cfgOne :: config where
  "cfgOne = cfgW\<lparr>retryCount := Some 1\<rparr>"

definition cfgFrac :: config where
  "cfgFrac = cfgW\<lparr>retryCount := Some (5 / 2)\<rparr>"

text \<open>A transport that refuses the first two attempts, and one that refuses them all.\<close>

definition answersW :: "int \<Rightarrow> send_outcome" where
  "answersW n = (if n < 3 then Rejected ''timeout'' else Accepted)"

definition answersF :: "int \<Rightarrow> send_outcome" where
  "answersF n = Rejected (''refused '' @ showInt n)"

definition mailW :: parsed_mail where
  "mailW = \<lparr>messageId = Some ''<m1@example.com>'', headerMessageId = None,
            mailSubject = Some ''Order photos [PHOTO]'', fromText = Some ''Bob <bob@example.com>'',
            fromAddress = Some ''bob@example.com'', mailText = Some ''hello'', mailHtml = None,
            mailAttachments = []\<rparr>"

text \<open>A transport that accepts every recipient but the second, and the first rule of \<open>cfgW\<close>.\<close>

definition transportW :: "nat \<Rightarrow> int \<Rightarrow> send_outcome" where
  "transportW i n = (if i = 1 then answersF n else Accepted)"

definition ruleW :: forward_rule where
  "ruleW = \<lparr>tag = ''[PHOTO]'', recipients = [''a@x.com'', ''b@x.com'']\<rparr>"

text \<open>The answers of the outside world for one run, and a state with two processed messages.\<close>

definition envW :: run_env where
  "envW = \<lparr>startTime = 1000, idTime = 1001, idRandom = ''0.25'', taskTimestamp = ''2024-01-01T00:00:00.000Z'',
            transport = transportW, endTime = 4500, notifyTimestamp = ''2024-01-01T00:00:03.500Z'',
            notifyOutcome = Accepted\<rparr>"

definition stateW :: state where
  "stateW = \<lparr>forwardedIds = {''<m0@example.com>'', ''<m1@example.com>''}, tasks = [], taskId = 7\<rparr>"

text \<open>A message without identifier: no parsed \<open>messageId\<close> and an empty header.\<close>

definition mailNoId :: parsed_mail where
  "mailNoId = mailW\<lparr>messageId := None, headerMessageId := Some []\<rparr>"

text \<open>A message from a sender outside the allow-list, and one whose subject matches no rule.\<close>

definition mailEve :: parsed_mail where
  "mailEve = mailW\<lparr>fromText := Some ''Eve <eve@evil.org>'', fromAddress := Some ''eve@evil.org''\<rparr>"

definition mailHello :: parsed_mail where
  "mailHello = mailW\<lparr>mailSubject := Some ''hello''\<rparr>"

text \<open>The same run with a transport that refuses the reply notification.\<close>

definition envBoom :: run_env where
  "envBoom = envW\<lparr>notifyOutcome := Rejected ''boom''\<rparr>"


section \<open>Properties\<close>

subsection \<open>Strings\<close>

lemma includes_iff: "str_includes s t \<longleftrightarrow> (\<exists>ps ss. s = ps @ t @ ss)"
proof -
  have "str_includes s t \<longleftrightarrow> sublist t s"
    by (induction s) (simp_all add: sublist_Cons_right)
  then show ?thesis by (simp add: sublist_def)
qed

declare showNat.simps [simp del]

lemma digitChar_of_char:
  assumes "d < 10"
  shows "of_char (digitChar d) = 48 + d"
proof -
  have "(of_char (char_of (48 + d)) :: nat) = (48 + d) mod 256"
    by (rule of_char_of)
  also have "\<dots> = 48 + d"
    using assms by simp
  finally show ?thesis
    by (simp only: digitChar_def)
qed

lemma split_at_separator:
  "c \<notin> set xs \<Longrightarrow> c \<notin> set xs' \<Longrightarrow> xs @ c # ys = xs' @ c # ys' \<Longrightarrow> xs = xs' \<and> ys = ys'"
proof (induction xs arbitrary: xs')
  case Nil
  then show ?case by (cases xs') auto
next
  case (Cons a xs)
  then show ?case by (cases xs') auto
qed

lemma digitChar_inj:
  assumes "a < 10" "b < 10" "digitChar a = digitChar b"
  shows "a = b"
proof -
  have "48 + a = (of_char (digitChar a) :: nat)"
    using assms(1) by (simp only: digitChar_of_char)
  also have "\<dots> = of_char (digitChar b)"
    by (simp only: assms(3))
  also have "\<dots> = 48 + b"
    using assms(2) by (simp only: digitChar_of_char)
  finally show ?thesis
    by simp
qed

lemma digitChar_not_minus: "d < 10 \<Longrightarrow> digitChar d \<noteq> CHR ''-''"
proof
  assume "d < 10" and "digitChar d = CHR ''-''"
  then have "(of_char (digitChar d) :: nat) = of_char (CHR ''-'')" by simp
  with \<open>d < 10\<close> show False by (simp add: digitChar_of_char)
qed

lemma showNat_nonempty: "showNat n \<noteq> []"
  by (subst showNat.simps) simp

lemma showNat_no_minus: "CHR ''-'' \<notin> set (showNat n)"
proof (induction n rule: showNat.induct)
  case (1 n)
  show ?case
  proof (cases "n < 10")
    case True
    then show ?thesis
      using digitChar_not_minus [of n] by (subst showNat.simps) auto
  next
    case False
    have "n mod 10 < 10" by simp
    then have "digitChar (n mod 10) \<noteq> CHR ''-''" by (rule digitChar_not_minus)
    with 1 False show ?thesis
      by (subst showNat.simps) auto
  qed
qed

lemma showNat_inj: "showNat a = showNat b \<Longrightarrow> a = b"
proof (induction a arbitrary: b rule: showNat.induct)
  case (1 a)
  show ?case
  proof (cases "a < 10")
    case a: True
    show ?thesis
    proof (cases "b < 10")
      case True
      with a 1(2) show ?thesis
        by (simp add: showNat.simps [of a] showNat.simps [of b] digitChar_inj)
    next
      case False
      with a 1(2) show ?thesis
        by (simp add: showNat.simps [of a] showNat.simps [of b] Cons_eq_append_conv showNat_nonempty)
    qed
  next
    case a: False
    show ?thesis
    proof (cases "b < 10")
      case True
      with a 1(2) show ?thesis
        by (simp add: showNat.simps [of a] showNat.simps [of b] append_eq_Cons_conv showNat_nonempty)
    next
      case False
      with a 1(2) have e: "showNat (a div 10) = showNat (b div 10)" "digitChar (a mod 10) = digitChar (b mod 10)"
        by (simp_all add: showNat.simps [of a] showNat.simps [of b])
      from e(1) a have "a div 10 = b div 10" by (rule 1(1) [rotated])
      moreover from e(2) have "a mod 10 = b mod 10" by (intro digitChar_inj) simp_all
      ultimately show ?thesis by (metis div_mult_mod_eq)
    qed
  qed
qed

lemma showInt_separator_inj:
  assumes "showInt a @ CHR ''-'' # r = showInt b @ CHR ''-'' # r'"
  shows "a = b \<and> r = r'"
proof -
  have pos: "x = y \<and> r = r'" if "showNat x @ CHR ''-'' # r = showNat y @ CHR ''-'' # r'" for x y
    using split_at_separator [OF showNat_no_minus showNat_no_minus that] showNat_inj [of x y] by simp
  have hd: "hd (showNat x) \<noteq> CHR ''-''" for x
    using showNat_nonempty [of x] showNat_no_minus [of x] by (cases "showNat x") auto
  have mixed: False if "CHR ''-'' # u = showNat x @ v" for u x v
    using that hd [of x] showNat_nonempty [of x] by (cases "showNat x") auto
  show ?thesis
  proof (cases "a < 0")
    case a: True
    show ?thesis
    proof (cases "b < 0")
      case True
      with a assms have "nat (- a) = nat (- b) \<and> r = r'"
        by (intro pos) (simp add: showInt_def)
      with a True show ?thesis by auto
    next
      case False
      with a assms show ?thesis
        using mixed [of "showNat (nat (- a)) @ CHR ''-'' # r" "nat b" "CHR ''-'' # r'"]
        by (simp add: showInt_def)
    qed
  next
    case a: False
    show ?thesis
    proof (cases "b < 0")
      case True
      with a assms show ?thesis
        using mixed [of "showNat (nat (- b)) @ CHR ''-'' # r'" "nat a" "CHR ''-'' # r"]
        by (simp add: showInt_def)
    next
      case False
      with a assms have "nat a = nat b \<and> r = r'"
        by (intro pos) (simp add: showInt_def)
      with a False show ?thesis by auto
    qed
  qed
qed

subsection \<open>Access filter\<close>

text \<open>
  Claim C7. \<open>isSenderAllowed\<close> is true when the allow-list is absent or empty; for a
  non-empty allow-list it is true exactly when the lowercased sender address contains the
  lowercased form of at least one entry as a substring.
\<close>

theorem isSenderAllowed_spec:
  "(allowedSenders cfg = None \<longrightarrow> isSenderAllowed cfg addr) \<and>
   (allowedSenders cfg = Some [] \<longrightarrow> isSenderAllowed cfg addr) \<and>
   (\<forall>senders. allowedSenders cfg = Some senders \<and> senders \<noteq> [] \<longrightarrow>
      (isSenderAllowed cfg addr \<longleftrightarrow>
         (\<exists>s \<in> set senders. \<exists>ps ss. toLowerCase addr = ps @ toLowerCase s @ ss)))"
  by (auto simp: isSenderAllowed_def list_ex_iff includes_iff)

theorem isSenderAllowed_spec_witness:
  "(\<exists>s \<in> set [''@Example.com'']. \<exists>ps ss. toLowerCase ''Bob@EXAMPLE.com'' = ps @ toLowerCase s @ ss) \<and>
   \<not> (\<exists>s \<in> set [''@Example.com'']. \<exists>ps ss. toLowerCase ''bob@example.org'' = ps @ toLowerCase s @ ss) \<and>
   isSenderAllowed (cfgW\<lparr>allowedSenders := None\<rparr>) ''bob@example.org'' \<and>
   isSenderAllowed (cfgW\<lparr>allowedSenders := Some []\<rparr>) ''bob@example.org''"
proof -
  have a: "isSenderAllowed cfgW ''Bob@EXAMPLE.com''"
    by code_simp
  have b: "\<not> isSenderAllowed cfgW ''bob@example.org''"
    by code_simp
  have c: "allowedSenders cfgW = Some [''@Example.com'']"
    by (simp add: cfgW_def)
  show ?thesis
    using a b c
      isSenderAllowed_spec [of cfgW "''Bob@EXAMPLE.com''"]
      isSenderAllowed_spec [of cfgW "''bob@example.org''"]
      isSenderAllowed_spec [of "cfgW\<lparr>allowedSenders := None\<rparr>" "''bob@example.org''"]
      isSenderAllowed_spec [of "cfgW\<lparr>allowedSenders := Some []\<rparr>" "''bob@example.org''"]
    by simp
qed

subsection \<open>Rule matcher\<close>

lemma matchRuleLoop_None:
  "matchRuleLoop ls rs = None \<longleftrightarrow> (\<forall>q \<in> set rs. \<not> str_includes ls (toLowerCase (tag q)))"
  by (induction rs) auto

lemma matchRuleLoop_Some:
  "matchRuleLoop ls rs = Some r \<longleftrightarrow>
     (\<exists>pre post. rs = pre @ r # post \<and> str_includes ls (toLowerCase (tag r)) \<and>
        (\<forall>q \<in> set pre. \<not> str_includes ls (toLowerCase (tag q))))"
proof (induction rs)
  case Nil
  then show ?case by simp
next
  case (Cons a rs)
  show ?case
  proof (cases "str_includes ls (toLowerCase (tag a))")
    case True
    have "matchRuleLoop ls (a # rs) = Some a" using True by simp
    moreover have "(\<exists>pre post. a # rs = pre @ r # post \<and> str_includes ls (toLowerCase (tag r)) \<and>
        (\<forall>q \<in> set pre. \<not> str_includes ls (toLowerCase (tag q)))) \<longleftrightarrow> a = r"
      using True by (auto simp: Cons_eq_append_conv)
    ultimately show ?thesis by auto
  next
    case False
    have "(\<exists>pre post. a # rs = pre @ r # post \<and> str_includes ls (toLowerCase (tag r)) \<and>
        (\<forall>q \<in> set pre. \<not> str_includes ls (toLowerCase (tag q)))) \<longleftrightarrow>
        (\<exists>pre post. rs = pre @ r # post \<and> str_includes ls (toLowerCase (tag r)) \<and>
        (\<forall>q \<in> set pre. \<not> str_includes ls (toLowerCase (tag q))))" (is "?L \<longleftrightarrow> ?R")
    proof
      assume ?L
      then obtain pre post where h: "a # rs = pre @ r # post" "str_includes ls (toLowerCase (tag r))"
        "\<forall>q \<in> set pre. \<not> str_includes ls (toLowerCase (tag q))" by blast
      with False obtain pre' where "pre = a # pre'" by (cases pre) auto
      with h show ?R by auto
    next
      assume ?R
      then obtain pre post where h: "rs = pre @ r # post" "str_includes ls (toLowerCase (tag r))"
        "\<forall>q \<in> set pre. \<not> str_includes ls (toLowerCase (tag q))" by blast
      then have "a # rs = (a # pre) @ r # post \<and> str_includes ls (toLowerCase (tag r)) \<and>
        (\<forall>q \<in> set (a # pre). \<not> str_includes ls (toLowerCase (tag q)))" using False by simp
      then show ?L by blast
    qed
    with False Cons.IH show ?thesis by simp
  qed
qed

text \<open>
  Claim C6. \<open>matchRule\<close> returns a rule exactly when that rule stands in the configured
  list behind rules none of whose lowercased tags occurs in the lowercased subject, and
  its own lowercased tag does occur there: the first match in configuration order wins.
  It returns nothing exactly when no rule's lowercased tag occurs in the lowercased subject.
\<close>

theorem matchRule_first_match:
  "(matchRule cfg subject = Some r \<longleftrightarrow>
      (\<exists>pre post. rules cfg = pre @ r # post \<and>
         (\<exists>ps ss. toLowerCase subject = ps @ toLowerCase (tag r) @ ss) \<and>
         (\<forall>q \<in> set pre. \<not> (\<exists>ps ss. toLowerCase subject = ps @ toLowerCase (tag q) @ ss)))) \<and>
   (matchRule cfg subject = None \<longleftrightarrow>
      (\<forall>q \<in> set (rules cfg). \<not> (\<exists>ps ss. toLowerCase subject = ps @ toLowerCase (tag q) @ ss)))"
  unfolding matchRule_def matchRuleLoop_Some matchRuleLoop_None includes_iff by simp

theorem matchRule_first_match_witness:
  "(\<exists>pre post. rules cfgW = pre @ \<lparr>tag = ''[PHOTO]'', recipients = [''a@x.com'', ''b@x.com'']\<rparr> # post \<and>
      (\<exists>ps ss. toLowerCase ''Order photos [Photo]'' = ps @ toLowerCase ''[PHOTO]'' @ ss) \<and>
      (\<forall>q \<in> set pre. \<not> (\<exists>ps ss. toLowerCase ''Order photos [Photo]'' = ps @ toLowerCase (tag q) @ ss))) \<and>
   \<not> (\<exists>q \<in> set (rules cfgW). \<exists>ps ss. toLowerCase ''Order'' = ps @ toLowerCase (tag q) @ ss)"
proof -
  have a: "matchRule cfgW ''Order photos [Photo]''
             = Some \<lparr>tag = ''[PHOTO]'', recipients = [''a@x.com'', ''b@x.com'']\<rparr>"
    by code_simp
  have b: "matchRule cfgW ''Order'' = None"
    by code_simp
  show ?thesis
    using a b
      matchRule_first_match [of cfgW "''Order photos [Photo]''"
        "\<lparr>tag = ''[PHOTO]'', recipients = [''a@x.com'', ''b@x.com'']\<rparr>"]
      matchRule_first_match [of cfgW "''Order''"]
    by simp
qed

subsection \<open>Delivery engine: one recipient\<close>

declare sendLoop.simps [simp del]

lemma timeline_simps [simp]:
  "timeline [] = []"
  "timeline (e # es) = stepsOf e @ timeline es"
  "timeline (xs @ ys) = timeline xs @ timeline ys"
  by (simp_all add: timeline_def)

lemma sendLoop_email: "email (fst (sendLoop cfg answers mail r M a e)) = r"
proof (induction cfg answers mail r M a e rule: sendLoop.induct)
  case (1 cfg answers mail r M a e)
  show ?case
    by (subst sendLoop.simps) (use 1 in \<open>auto simp: case_prod_beta split: send_outcome.splits\<close>)
qed

lemma sendLoop_first_success:
  "a \<le> n \<Longrightarrow> of_int n \<le> M \<Longrightarrow> answers n = Accepted \<Longrightarrow>
   (\<forall>k. a \<le> k \<and> k < n \<longrightarrow> answers k \<noteq> Accepted) \<Longrightarrow>
   fst (sendLoop cfg answers mail r M a e)
     = \<lparr>email = r, success = True, error = None, attempts = of_int n\<rparr> \<and>
   timeline (snd (sendLoop cfg answers mail r M a e)) = concat (map failedRound [a..n - 1]) @ [Attempt True]"
proof (induction cfg answers mail r M a e rule: sendLoop.induct)
  case (1 cfg answers mail r M a e)
  show ?case
  proof (cases "a = n")
    case True
    with 1 show ?thesis
      by (subst (1 2) sendLoop.simps) simp
  next
    case False
    with 1(2) have an: "a < n"
      by simp
    then have "(of_int a :: rat) < of_int n"
      by simp
    with 1(3) have lt: "of_int a < M" "of_int a \<le> M"
      by simp_all
    from 1(5) an obtain msg where msg: "answers a = Rejected msg"
      by (cases "answers a") auto
    have up: "[a..n - 1] = a # [a + 1..n - 1]"
      using an by (simp add: upto_rec1)
    have IH: "fst (sendLoop cfg answers mail r M (a + 1) msg)
        = \<lparr>email = r, success = True, error = None, attempts = of_int n\<rparr> \<and>
      timeline (snd (sendLoop cfg answers mail r M (a + 1) msg))
        = concat (map failedRound [a + 1..n - 1]) @ [Attempt True]"
      using 1(1) [OF lt(2) msg] 1(3,4,5) an by auto
    show ?thesis
      by (subst (1 2) sendLoop.simps) (simp add: lt msg up IH case_prod_beta failedRound_def)
  qed
qed

lemma sendLoop_all_fail:
  "(\<forall>k. a \<le> k \<and> of_int k \<le> M \<longrightarrow> answers k \<noteq> Accepted) \<Longrightarrow>
   fst (sendLoop cfg answers mail r M a e) =
     \<lparr>email = r, success = False,
      error = Some (if of_int a \<le> M
                    then (case answers \<lfloor>M\<rfloor> of Rejected msg \<Rightarrow> msg | Accepted \<Rightarrow> [])
                    else e),
      attempts = M\<rparr> \<and>
   timeline (snd (sendLoop cfg answers mail r M a e)) = concat (map (failedAttempt M) [a..\<lfloor>M\<rfloor>])"
proof (induction cfg answers mail r M a e rule: sendLoop.induct)
  case (1 cfg answers mail r M a e)
  show ?case
  proof (cases "of_int a \<le> M")
    case False
    then have "\<not> a \<le> \<lfloor>M\<rfloor>"
      by (simp add: le_floor_iff)
    with False show ?thesis
      by (subst (1 2) sendLoop.simps) simp
  next
    case True
    then have fl: "a \<le> \<lfloor>M\<rfloor>"
      by (simp add: le_floor_iff)
    from 1(2) True obtain msg where msg: "answers a = Rejected msg"
      by (cases "answers a") auto
    have IH: "fst (sendLoop cfg answers mail r M (a + 1) msg) =
       \<lparr>email = r, success = False,
        error = Some (if of_int (a + 1) \<le> M
                      then (case answers \<lfloor>M\<rfloor> of Rejected msg \<Rightarrow> msg | Accepted \<Rightarrow> [])
                      else msg),
        attempts = M\<rparr> \<and>
      timeline (snd (sendLoop cfg answers mail r M (a + 1) msg))
        = concat (map (failedAttempt M) [a + 1..\<lfloor>M\<rfloor>])"
      using 1(1) [OF True msg] 1(2) by auto
    have up: "[a..\<lfloor>M\<rfloor>] = a # [a + 1..\<lfloor>M\<rfloor>]"
      using fl by (simp add: upto_rec1)
    have last: "(case answers \<lfloor>M\<rfloor> of Rejected msg \<Rightarrow> msg | Accepted \<Rightarrow> []) = msg"
      if "\<not> of_int (a + 1) \<le> M"
    proof -
      from that have "\<not> a + 1 \<le> \<lfloor>M\<rfloor>"
        by (simp add: le_floor_iff)
      with fl have "\<lfloor>M\<rfloor> = a"
        by simp
      then show ?thesis
        by (simp add: msg)
    qed
    have err: "(if of_int (a + 1) \<le> M
                then (case answers \<lfloor>M\<rfloor> of Rejected msg \<Rightarrow> msg | Accepted \<Rightarrow> [])
                else msg)
             = (case answers \<lfloor>M\<rfloor> of Rejected msg \<Rightarrow> msg | Accepted \<Rightarrow> [])"
      using last by (cases "of_int (a + 1) \<le> M") simp_all
    have fst: "fst (sendLoop cfg answers mail r M a e) = fst (sendLoop cfg answers mail r M (a + 1) msg)"
      by (subst sendLoop.simps) (simp add: True msg case_prod_beta)
    have snd: "timeline (snd (sendLoop cfg answers mail r M a e))
        = failedAttempt M a @ timeline (snd (sendLoop cfg answers mail r M (a + 1) msg))"
      by (subst sendLoop.simps) (simp add: True msg case_prod_beta failedAttempt_def)
    show ?thesis
      using IH by (simp only: fst snd err up True if_True) simp
  qed
qed

lemma sendLoop_attempts_bound:
  "attemptsMade (snd (sendLoop cfg answers mail r M a e)) \<le> nat (\<lfloor>M\<rfloor> + 1 - a)"
proof (induction cfg answers mail r M a e rule: sendLoop.induct)
  case (1 cfg answers mail r M a e)
  show ?case
  proof (cases "of_int a \<le> M")
    case False
    then show ?thesis
      by (subst sendLoop.simps) (simp add: attemptsMade_def)
  next
    case True
    then have fl: "a \<le> \<lfloor>M\<rfloor>"
      by (simp add: le_floor_iff)
    show ?thesis
    proof (cases "answers a")
      case Accepted
      with True fl show ?thesis
        by (subst sendLoop.simps) (simp add: attemptsMade_def)
    next
      case (Rejected msg)
      with 1 True have "attemptsMade (snd (sendLoop cfg answers mail r M (a + 1) msg))
          \<le> nat (\<lfloor>M\<rfloor> + 1 - (a + 1))"
        by simp
      with True fl Rejected show ?thesis
        by (subst sendLoop.simps) (simp add: attemptsMade_def case_prod_beta)
    qed
  qed
qed

lemma failedAttempt_integer:
  "concat (map (failedAttempt (of_int m)) [1..m])
     = concat (map failedRound [1..m - 1]) @ (if 1 \<le> m then [Attempt False] else [])"
proof (cases "1 \<le> m")
  case False
  then show ?thesis by simp
next
  case True
  then have up: "[1..m] = [1..m - 1] @ [m]"
    by (simp add: upto_rec2)
  have eq: "map (failedAttempt (of_int m)) [1..m - 1] = map failedRound [1..m - 1]"
    by (rule map_cong) (simp_all add: failedAttempt_def failedRound_def)
  have "concat (map (failedAttempt (of_int m)) [1..m])
      = concat (map failedRound [1..m - 1]) @ failedAttempt (of_int m) m"
    by (simp only: up map_append concat_append eq) simp
  with True show ?thesis
    by (simp add: failedAttempt_def)
qed

text \<open>
  Claim C3 says that a backoff wait is requested after a failed attempt exactly when
  attempts remain. \<open>config.retryCount\<close> is a JSON number that nothing validates, and the
  loop compares with \<open>attempt < maxAttempts\<close>: with \<open>retryCount = 2.5\<close> and a transport
  that refuses every attempt, two attempts are made and the second, after which none
  remains, is still followed by its wait of 2000 ms.
\<close>

theorem sendToRecipient_retry_counterexample:
  "retryCount cfgFrac = Some (5 / 2) \<and>
   timeline (snd (sendToRecipient cfgFrac answersF mailW ''a@x.com'' ''bob@example.com''))
     = [Attempt False, Backoff 1000, Attempt False, Backoff 2000] \<and>
   success (fst (sendToRecipient cfgFrac answersF mailW ''a@x.com'' ''bob@example.com'')) = False \<and>
   attempts (fst (sendToRecipient cfgFrac answersF mailW ''a@x.com'' ''bob@example.com'')) = 5 / 2"
proof -
  have m: "maxAttemptsOf cfgFrac = 5 / 2" "retryCount cfgFrac = Some (5 / 2)"
    by (simp_all add: maxAttemptsOf_def cfgFrac_def)
  have fl: "\<lfloor>5 / 2 :: rat\<rfloor> = 2"
    by (simp add: floor_eq_iff)
  have u: "[1..(2::int)] = [1, 2]"
    by (simp add: upto_rec1)
  have h: "\<forall>k. 1 \<le> k \<and> of_int k \<le> (5 / 2 :: rat) \<longrightarrow> answersF k \<noteq> Accepted"
    by (simp add: answersF_def)
  have r: "timeline (snd (sendLoop cfgFrac answersF mailW ''a@x.com'' (5 / 2) 1 []))
        = [Attempt False, Backoff 1000, Attempt False, Backoff 2000]"
    "success (fst (sendLoop cfgFrac answersF mailW ''a@x.com'' (5 / 2) 1 [])) = False"
    "attempts (fst (sendLoop cfgFrac answersF mailW ''a@x.com'' (5 / 2) 1 [])) = 5 / 2"
    using sendLoop_all_fail [OF h, of cfgFrac mailW "''a@x.com''" "[]"]
    by (simp_all add: fl u failedAttempt_def)
  show ?thesis
    unfolding sendToRecipient_def m(1) using r m(2) by (simp only: simp_thms)
qed

text \<open>
  Claim C3, amended. With \<open>maxAttempts\<close> the number \<open>config.retryCount\<close>, or 3 when that
  is absent, \<open>sendToRecipient\<close> makes at most \<open>maxAttempts\<close> transport attempts (none
  when \<open>maxAttempts < 1\<close>). If attempt \<open>n\<close> is the first the transport accepts, the
  result is \<open>{success: true, attempts: n}\<close> and the steps are the failed attempts
  \<open>1 .. n-1\<close>, each followed by a wait of \<open>1000 * k\<close> ms, and then the accepted attempt,
  with nothing after it. If the transport refuses every attempt, the result is
  \<open>{success: false, error: lastError, attempts: maxAttempts}\<close> with the message of the
  last refusal, and a wait of \<open>1000 * k\<close> ms follows failed attempt \<open>k\<close> exactly when
  \<open>k < maxAttempts\<close>. For an integer \<open>maxAttempts\<close> that is exactly when attempts
  remain: all failed attempts but the last are followed by their wait. For a fractional
  \<open>maxAttempts\<close> the last failed attempt is followed by a wait as well.
\<close>

theorem sendToRecipient_retry:
  "M = (case retryCount cfg of None \<Rightarrow> 3 | Some q \<Rightarrow> q) \<Longrightarrow>
   of_nat (attemptsMade (snd (sendToRecipient cfg answers mail r s))) \<le> max 0 M \<and>
   (\<forall>n. 1 \<le> n \<and> of_int n \<le> M \<and> answers n = Accepted \<and>
        (\<forall>k. 1 \<le> k \<and> k < n \<longrightarrow> answers k \<noteq> Accepted) \<longrightarrow>
      fst (sendToRecipient cfg answers mail r s)
        = \<lparr>email = r, success = True, error = None, attempts = of_int n\<rparr> \<and>
      timeline (snd (sendToRecipient cfg answers mail r s))
        = concat (map failedRound [1..n - 1]) @ [Attempt True]) \<and>
   ((\<forall>k. 1 \<le> k \<and> of_int k \<le> M \<longrightarrow> answers k \<noteq> Accepted) \<longrightarrow>
      fst (sendToRecipient cfg answers mail r s)
        = \<lparr>email = r, success = False,
           error = Some (if 1 \<le> M
                         then (case answers \<lfloor>M\<rfloor> of Rejected msg \<Rightarrow> msg | Accepted \<Rightarrow> [])
                         else []),
           attempts = M\<rparr> \<and>
      timeline (snd (sendToRecipient cfg answers mail r s))
        = concat (map (failedAttempt M) [1..\<lfloor>M\<rfloor>]) \<and>
      (M = of_int \<lfloor>M\<rfloor> \<longrightarrow>
         timeline (snd (sendToRecipient cfg answers mail r s))
           = concat (map failedRound [1..\<lfloor>M\<rfloor> - 1]) @ (if 1 \<le> M then [Attempt False] else [])))"
proof -
  assume "M = (case retryCount cfg of None \<Rightarrow> 3 | Some q \<Rightarrow> q)"
  then have M: "maxAttemptsOf cfg = M"
    by (simp add: maxAttemptsOf_def)
  have bound: "of_nat (attemptsMade (snd (sendToRecipient cfg answers mail r s))) \<le> max 0 M"
  proof -
    have le: "attemptsMade (snd (sendToRecipient cfg answers mail r s)) \<le> nat \<lfloor>M\<rfloor>"
      using sendLoop_attempts_bound [of cfg answers mail r M 1 "[]"]
      by (simp add: sendToRecipient_def M)
    show ?thesis
    proof (cases "0 \<le> \<lfloor>M\<rfloor>")
      case True
      from le have "(of_nat (attemptsMade (snd (sendToRecipient cfg answers mail r s))) :: rat)
          \<le> of_nat (nat \<lfloor>M\<rfloor>)"
        by (simp only: of_nat_le_iff)
      also have "\<dots> = of_int \<lfloor>M\<rfloor>"
        using True by simp
      also have "\<dots> \<le> M"
        by (rule of_int_floor_le)
      finally show ?thesis
        by simp
    next
      case False
      with le have "attemptsMade (snd (sendToRecipient cfg answers mail r s)) = 0"
        by simp
      then show ?thesis
        by simp
    qed
  qed
  have succ: "fst (sendToRecipient cfg answers mail r s)
        = \<lparr>email = r, success = True, error = None, attempts = of_int n\<rparr> \<and>
      timeline (snd (sendToRecipient cfg answers mail r s))
        = concat (map failedRound [1..n - 1]) @ [Attempt True]"
    if "1 \<le> n \<and> of_int n \<le> M \<and> answers n = Accepted \<and>
        (\<forall>k. 1 \<le> k \<and> k < n \<longrightarrow> answers k \<noteq> Accepted)" for n
    using that sendLoop_first_success [of 1 n M answers cfg mail r "[]"]
    by (simp add: sendToRecipient_def M)
  have fail: "fst (sendToRecipient cfg answers mail r s)
        = \<lparr>email = r, success = False,
           error = Some (if 1 \<le> M
                         then (case answers \<lfloor>M\<rfloor> of Rejected msg \<Rightarrow> msg | Accepted \<Rightarrow> [])
                         else []),
           attempts = M\<rparr> \<and>
      timeline (snd (sendToRecipient cfg answers mail r s))
        = concat (map (failedAttempt M) [1..\<lfloor>M\<rfloor>])"
    if "\<forall>k. 1 \<le> k \<and> of_int k \<le> M \<longrightarrow> answers k \<noteq> Accepted"
    using sendLoop_all_fail [OF that, of cfg mail r "[]"]
    by (simp add: sendToRecipient_def M)
  have intg: "timeline (snd (sendToRecipient cfg answers mail r s))
           = concat (map failedRound [1..\<lfloor>M\<rfloor> - 1]) @ (if 1 \<le> M then [Attempt False] else [])"
    if "\<forall>k. 1 \<le> k \<and> of_int k \<le> M \<longrightarrow> answers k \<noteq> Accepted" and "M = of_int \<lfloor>M\<rfloor>"
  proof -
    have "1 \<le> M \<longleftrightarrow> 1 \<le> \<lfloor>M\<rfloor>"
      by (simp add: le_floor_iff)
    moreover have "concat (map (failedAttempt M) [1..\<lfloor>M\<rfloor>])
        = concat (map failedRound [1..\<lfloor>M\<rfloor> - 1]) @ (if 1 \<le> \<lfloor>M\<rfloor> then [Attempt False] else [])"
      using failedAttempt_integer [of "\<lfloor>M\<rfloor>"] that(2) by simp
    ultimately show ?thesis
      using fail [OF that(1)] by simp
  qed
  from bound succ fail intg show ?thesis
    by blast
qed

theorem sendToRecipient_retry_witness:
  "fst (sendToRecipient cfgW answersW mailW ''a@x.com'' ''bob@example.com'')
     = \<lparr>email = ''a@x.com'', success = True, error = None, attempts = 3\<rparr> \<and>
   timeline (snd (sendToRecipient cfgW answersW mailW ''a@x.com'' ''bob@example.com''))
     = [Attempt False, Backoff 1000, Attempt False, Backoff 2000, Attempt True] \<and>
   fst (sendToRecipient cfgW answersF mailW ''a@x.com'' ''bob@example.com'')
     = \<lparr>email = ''a@x.com'', success = False, error = Some ''refused 3'', attempts = 3\<rparr> \<and>
   timeline (snd (sendToRecipient cfgW answersF mailW ''a@x.com'' ''bob@example.com''))
     = [Attempt False, Backoff 1000, Attempt False, Backoff 2000, Attempt False] \<and>
   fst (sendToRecipient cfgOne answersF mailW ''a@x.com'' ''bob@example.com'')
     = \<lparr>email = ''a@x.com'', success = False, error = Some ''refused 1'', attempts = 1\<rparr> \<and>
   timeline (snd (sendToRecipient cfgOne answersF mailW ''a@x.com'' ''bob@example.com''))
     = [Attempt False] \<and>
   timeline (snd (sendToRecipient cfgFrac answersF mailW ''a@x.com'' ''bob@example.com''))
     = [Attempt False, Backoff 1000, Attempt False, Backoff 2000]"
proof -
  have m3: "(3::rat) = (case retryCount cfgW of None \<Rightarrow> 3 | Some q \<Rightarrow> q)"
    by (simp add: cfgW_def)
  have m1: "(1::rat) = (case retryCount cfgOne of None \<Rightarrow> 3 | Some q \<Rightarrow> q)"
    by (simp add: cfgOne_def)
  have mf: "(5 / 2 :: rat) = (case retryCount cfgFrac of None \<Rightarrow> 3 | Some q \<Rightarrow> q)"
    by (simp add: cfgFrac_def)
  have a: "(1::int) \<le> 3 \<and> of_int 3 \<le> (3::rat) \<and> answersW 3 = Accepted \<and>
        (\<forall>k. 1 \<le> k \<and> k < 3 \<longrightarrow> answersW k \<noteq> Accepted)"
    by (simp add: answersW_def)
  have b: "\<forall>k. 1 \<le> k \<and> of_int k \<le> q \<longrightarrow> answersF k \<noteq> Accepted" for q :: rat
    by (simp add: answersF_def)
  have fl: "\<lfloor>3 :: rat\<rfloor> = 3" "\<lfloor>1 :: rat\<rfloor> = 1" "\<lfloor>5 / 2 :: rat\<rfloor> = 2"
    by (simp_all add: floor_eq_iff)
  have u: "[1..(2::int)] = [1, 2]" "[1..(3::int)] = [1, 2, 3]" "[1..(1::int)] = [1]"
    by (simp_all add: upto_rec1)
  have e: "showInt 3 = ''3''" "showInt 1 = ''1''"
    by code_simp+
  note t3 = sendToRecipient_retry [OF m3, of answersW mailW "''a@x.com''" "''bob@example.com''"]
  note f3 = sendToRecipient_retry [OF m3, of answersF mailW "''a@x.com''" "''bob@example.com''"]
  note f1 = sendToRecipient_retry [OF m1, of answersF mailW "''a@x.com''" "''bob@example.com''"]
  note ff = sendToRecipient_retry [OF mf, of answersF mailW "''a@x.com''" "''bob@example.com''"]
  have r1: "fst (sendToRecipient cfgW answersW mailW ''a@x.com'' ''bob@example.com'')
        = \<lparr>email = ''a@x.com'', success = True, error = None, attempts = of_int 3\<rparr> \<and>
      timeline (snd (sendToRecipient cfgW answersW mailW ''a@x.com'' ''bob@example.com''))
        = concat (map failedRound [1..3 - 1]) @ [Attempt True]"
    using a t3 by blast
  have r2: "fst (sendToRecipient cfgW answersF mailW ''a@x.com'' ''bob@example.com'')
        = \<lparr>email = ''a@x.com'', success = False,
           error = Some (if 1 \<le> (3::rat)
                         then (case answersF \<lfloor>3::rat\<rfloor> of Rejected msg \<Rightarrow> msg | Accepted \<Rightarrow> [])
                         else []),
           attempts = 3\<rparr> \<and>
      timeline (snd (sendToRecipient cfgW answersF mailW ''a@x.com'' ''bob@example.com''))
        = concat (map (failedAttempt 3) [1..\<lfloor>3::rat\<rfloor>])"
    using b [of 3] f3 by blast
  have r3: "fst (sendToRecipient cfgOne answersF mailW ''a@x.com'' ''bob@example.com'')
        = \<lparr>email = ''a@x.com'', success = False,
           error = Some (if 1 \<le> (1::rat)
                         then (case answersF \<lfloor>1::rat\<rfloor> of Rejected msg \<Rightarrow> msg | Accepted \<Rightarrow> [])
                         else []),
           attempts = 1\<rparr> \<and>
      timeline (snd (sendToRecipient cfgOne answersF mailW ''a@x.com'' ''bob@example.com''))
        = concat (map (failedAttempt 1) [1..\<lfloor>1::rat\<rfloor>])"
    using b [of 1] f1 by blast
  have r4: "timeline (snd (sendToRecipient cfgFrac answersF mailW ''a@x.com'' ''bob@example.com''))
        = concat (map (failedAttempt (5 / 2)) [1..\<lfloor>5 / 2 :: rat\<rfloor>])"
    using b [of "5 / 2"] ff by blast
  show ?thesis
    using r1 r2 r3 r4 by (simp add: fl u e failedRound_def failedAttempt_def answersF_def)
qed

subsection \<open>Delivery engine: all recipients\<close>

lemma sendToRecipient_email: "email (fst (sendToRecipient cfg answers mail r s)) = r"
  by (simp add: sendToRecipient_def sendLoop_email)

lemma forwardEmail_results:
  "fst (forwardEmail cfg answers mail rule s) =
     map (\<lambda>(i, r). fst (sendToRecipient cfg (answers i) mail r s)) (enumerate 0 (recipients rule))"
  by (simp add: forwardEmail_def Let_def case_prod_beta comp_def)

lemma forwardEmail_length:
  "length (fst (forwardEmail cfg answers mail rule s)) = length (recipients rule)"
  by (simp add: forwardEmail_results)

lemma forwardEmail_nth:
  "i < length (recipients rule) \<Longrightarrow>
   fst (forwardEmail cfg answers mail rule s) ! i
     = fst (sendToRecipient cfg (answers i) mail (recipients rule ! i) s)"
  by (simp add: forwardEmail_results nth_enumerate_eq)

text \<open>
  Claim C10. \<open>forwardEmail\<close> returns exactly one result per configured recipient, in
  the order of the rule's recipient list: the result list is as long as
  \<open>rule.recipients\<close>, the \<open>i\<close>-th result carries the address \<open>rule.recipients[i]\<close>, and
  it is the result of \<open>sendToRecipient\<close> for that recipient.
\<close>

theorem forwardEmail_one_result_per_recipient:
  "length (fst (forwardEmail cfg answers mail rule s)) = length (recipients rule) \<and>
   map email (fst (forwardEmail cfg answers mail rule s)) = recipients rule \<and>
   (\<forall>i. i < length (recipients rule) \<longrightarrow>
      email (fst (forwardEmail cfg answers mail rule s) ! i) = recipients rule ! i \<and>
      fst (forwardEmail cfg answers mail rule s) ! i
        = fst (sendToRecipient cfg (answers i) mail (recipients rule ! i) s))"
proof (intro conjI allI impI)
  show "length (fst (forwardEmail cfg answers mail rule s)) = length (recipients rule)"
    by (rule forwardEmail_length)
  show "map email (fst (forwardEmail cfg answers mail rule s)) = recipients rule"
    by (rule nth_equalityI) (simp_all add: forwardEmail_length forwardEmail_nth sendToRecipient_email)
next
  fix i
  assume i: "i < length (recipients rule)"
  then show "fst (forwardEmail cfg answers mail rule s) ! i
        = fst (sendToRecipient cfg (answers i) mail (recipients rule ! i) s)"
    by (rule forwardEmail_nth)
  then show "email (fst (forwardEmail cfg answers mail rule s) ! i) = recipients rule ! i"
    by (simp add: sendToRecipient_email)
qed

theorem forwardEmail_one_result_per_recipient_witness:
  "length (fst (forwardEmail cfgW transportW mailW ruleW ''bob@example.com'')) = 2 \<and>
   map email (fst (forwardEmail cfgW transportW mailW ruleW ''bob@example.com'')) = [''a@x.com'', ''b@x.com''] \<and>
   email (fst (forwardEmail cfgW transportW mailW ruleW ''bob@example.com'') ! 1) = ''b@x.com''"
proof -
  note t = forwardEmail_one_result_per_recipient [of cfgW transportW mailW ruleW "''bob@example.com''"]
  have a: "(1::nat) < length (recipients ruleW)"
    by (simp add: ruleW_def)
  from t have "1 < length (recipients ruleW) \<longrightarrow>
      email (fst (forwardEmail cfgW transportW mailW ruleW ''bob@example.com'') ! 1) = recipients ruleW ! 1 \<and>
      fst (forwardEmail cfgW transportW mailW ruleW ''bob@example.com'') ! 1
        = fst (sendToRecipient cfgW (transportW 1) mailW (recipients ruleW ! 1) ''bob@example.com'')"
    by blast
  with a t show ?thesis
    by (simp add: ruleW_def)
qed

subsection \<open>Orchestrator: the exits of \<open>processEmail\<close>\<close>

lemma allEvents_simps [simp]:
  "allEvents [] = []"
  "allEvents (e # es) = ioEvents e @ allEvents es"
  "allEvents (xs @ ys) = allEvents xs @ allEvents ys"
  by (simp_all add: allEvents_def)

lemma processEmail_duplicate:
  "isAlreadyForwarded st mail \<Longrightarrow>
   \<exists>s1 s2. processEmail cfg env st mail = (SkippedDuplicate, st, [Seq (Log INFO s1), Seq (Log INFO s2)])"
  by (simp add: processEmail_def Let_def)

lemma processEmail_disallowed:
  "\<not> isAlreadyForwarded st mail \<Longrightarrow> \<not> isSenderAllowed cfg (orElse (fromAddress mail) []) \<Longrightarrow>
   \<exists>s1 s2. processEmail cfg env st mail =
     (SenderNotAllowed, fst (saveForwardedId st (getMessageId env mail) (orElse (mailSubject mail) ''(no subject)'')),
      [Seq (Log INFO s1), Seq (Log WARN s2)]
        @ snd (saveForwardedId st (getMessageId env mail) (orElse (mailSubject mail) ''(no subject)'')))"
  by (simp add: processEmail_def Let_def case_prod_beta)

lemma processEmail_unmatched:
  "\<not> isAlreadyForwarded st mail \<Longrightarrow> isSenderAllowed cfg (orElse (fromAddress mail) []) \<Longrightarrow>
   matchRule cfg (orElse (mailSubject mail) ''(no subject)'') = None \<Longrightarrow>
   \<exists>s1 s2. processEmail cfg env st mail =
     (NoMatchingRule, fst (saveForwardedId st (getMessageId env mail) (orElse (mailSubject mail) ''(no subject)'')),
      [Seq (Log INFO s1), Seq (Log INFO s2)]
        @ snd (saveForwardedId st (getMessageId env mail) (orElse (mailSubject mail) ''(no subject)'')))"
  by (simp add: processEmail_def Let_def case_prod_beta)


lemma saveForwardedId_simps [simp]:
  "fst (saveForwardedId st mid subj) = st\<lparr>forwardedIds := insert mid (forwardedIds st)\<rparr>"
  "snd (saveForwardedId st mid subj)
     = [Seq (AppendForwarded (mid @ [CHR 0x0A])), Seq (Log INFO (''Marked as processed: '' @ subj))]"
  by (simp_all add: saveForwardedId_def)

lemma isAlreadyForwarded_iff:
  "isAlreadyForwarded st mail \<longleftrightarrow> truthy (rawMessageId mail) \<and> getMessageId env mail \<in> forwardedIds st"
  by (auto simp: isAlreadyForwarded_def getMessageId_def truthy_def orElse_def split: option.splits)

text \<open>
  Claim C1. A message that carries an identifier which is already in the dedup set is
  skipped: \<open>processEmail\<close> returns at its first exit, the state (dedup set, task list,
  task id counter) is the state it started in, and the run does nothing but write log
  lines: no delivery attempt, no notification, no dedup append, no Task History entry.
\<close>

theorem duplicate_is_skipped:
  "truthy (rawMessageId mail) \<Longrightarrow> getMessageId env mail \<in> forwardedIds st \<Longrightarrow>
   fst (processEmail cfg env st mail) = SkippedDuplicate \<and>
   fst (snd (processEmail cfg env st mail)) = st \<and>
   list_all isLog (allEvents (snd (snd (processEmail cfg env st mail))))"
proof -
  assume "truthy (rawMessageId mail)" and "getMessageId env mail \<in> forwardedIds st"
  then have "isAlreadyForwarded st mail"
    by (simp add: isAlreadyForwarded_iff [of st mail env])
  then obtain s1 s2 where
    "processEmail cfg env st mail = (SkippedDuplicate, st, [Seq (Log INFO s1), Seq (Log INFO s2)])"
    using processEmail_duplicate by blast
  then show ?thesis
    by simp
qed

theorem duplicate_is_skipped_witness:
  "truthy (rawMessageId mailW) \<and> getMessageId envW mailW \<in> forwardedIds stateW \<and>
   fst (processEmail cfgW envW stateW mailW) = SkippedDuplicate \<and>
   fst (snd (processEmail cfgW envW stateW mailW)) = stateW \<and>
   list_all isLog (allEvents (snd (snd (processEmail cfgW envW stateW mailW))))"
proof -
  have a: "truthy (rawMessageId mailW)"
    by (simp add: truthy_def rawMessageId_def mailW_def)
  have b: "getMessageId envW mailW \<in> forwardedIds stateW"
    by (simp add: getMessageId_def rawMessageId_def truthy_def orElse_def mailW_def stateW_def)
  show ?thesis
    using a b duplicate_is_skipped [OF a b, of cfgW] by simp
qed

lemma processEmail_matched_outcome:
  assumes "\<not> isAlreadyForwarded st mail" "isSenderAllowed cfg (orElse (fromAddress mail) [])"
    "matchRule cfg (orElse (mailSubject mail) ''(no subject)'') = Some rule"
  shows "fst (processEmail cfg env st mail) =
     (case fst (sendReplyNotification cfg env mail
                  (fst (forwardEmail cfg (transport env) mail rule (orElse (fromAddress mail) [])))
                  (endTime env - startTime env)) of
        Accepted \<Rightarrow> Forwarded | Rejected err \<Rightarrow> Thrown err)"
  using assms by (simp add: processEmail_def Let_def case_prod_beta split: send_outcome.splits)

lemma processEmail_matched_state:
  assumes "\<not> isAlreadyForwarded st mail" "isSenderAllowed cfg (orElse (fromAddress mail) [])"
    "matchRule cfg (orElse (mailSubject mail) ''(no subject)'') = Some rule"
  shows "forwardedIds (fst (snd (processEmail cfg env st mail)))
           = insert (getMessageId env mail) (forwardedIds st)"
    and "taskId (fst (snd (processEmail cfg env st mail))) = taskId st + 1"
  using assms by (simp_all add: processEmail_def Let_def case_prod_beta split: send_outcome.splits)

lemma processEmail_matched_tasks:
  assumes "\<not> isAlreadyForwarded st mail" "isSenderAllowed cfg (orElse (fromAddress mail) [])"
    "matchRule cfg (orElse (mailSubject mail) ''(no subject)'') = Some rule"
  shows "tasks (fst (snd (processEmail cfg env st mail))) =
     (let results = fst (forwardEmail cfg (transport env) mail rule (orElse (fromAddress mail) []));
          failCount = length results - length (filter success results)
      in if fst (processEmail cfg env st mail) = Forwarded
         then unshiftTask
                \<lparr>task_id = taskId st + 1,
                 task_timestamp = taskTimestamp env,
                 task_subject = orElse (mailSubject mail) ''(no subject)'',
                 task_from = orElse (fromText mail) ''unknown'',
                 matchedTag = tag rule,
                 task_recipients = recipients rule,
                 status = (if failCount > 0 then Failed else Success),
                 task_error = (if failCount > 0
                               then Some (showNat failCount @ ''/'' @ showNat (length results) @ '' failed'')
                               else None)\<rparr>
                (tasks st)
         else tasks st)"
  using assms by (simp add: processEmail_def Let_def case_prod_beta split: send_outcome.splits)

lemma processEmail_matched_trace:
  assumes "\<not> isAlreadyForwarded st mail" "isSenderAllowed cfg (orElse (fromAddress mail) [])"
    "matchRule cfg (orElse (mailSubject mail) ''(no subject)'') = Some rule"
  shows "\<exists>s1 l2 s2 s3. snd (snd (processEmail cfg env st mail)) =
     Seq (Log INFO s1)
     # snd (forwardEmail cfg (transport env) mail rule (orElse (fromAddress mail) []))
     @ [Seq (Log l2 s2),
        Seq (AppendForwarded (getMessageId env mail @ [CHR 0x0A])),
        Seq (Log INFO s3)]
     @ snd (sendReplyNotification cfg env mail
              (fst (forwardEmail cfg (transport env) mail rule (orElse (fromAddress mail) [])))
              (endTime env - startTime env))"
  using assms by (simp add: processEmail_def Let_def case_prod_beta split: send_outcome.splits)


lemma no_identifier_raw:
  "\<not> truthy (messageId mail) \<Longrightarrow> \<not> truthy (headerMessageId mail) \<Longrightarrow> \<not> truthy (rawMessageId mail)"
  by (simp add: rawMessageId_def)

lemma processEmail_marks_processed:
  assumes "\<not> isAlreadyForwarded st mail"
  shows "fst (processEmail cfg env st mail) \<noteq> SkippedDuplicate \<and>
         forwardedIds (fst (snd (processEmail cfg env st mail)))
           = insert (getMessageId env mail) (forwardedIds st)"
proof (cases "isSenderAllowed cfg (orElse (fromAddress mail) [])")
  case False
  with assms processEmail_disallowed [of st mail cfg env] show ?thesis
    by auto
next
  case True
  show ?thesis
  proof (cases "matchRule cfg (orElse (mailSubject mail) ''(no subject)'')")
    case None
    with assms True processEmail_unmatched [of st mail cfg env] show ?thesis
      by auto
  next
    case (Some rule)
    with assms True show ?thesis
      by (simp add: processEmail_matched_outcome processEmail_matched_state split: send_outcome.splits)
  qed
qed

text \<open>
  Claim C9. For a message with no identifier (no parsed \<open>messageId\<close> and no
  \<open>message-id\<close> header, the empty string counting as none) the duplicate check is
  false whatever the dedup set holds, so the run never ends as a skipped duplicate. The
  identifier recorded for it is the synthesized string \<open>`${Date.now()}-${Math.random()}`\<close>,
  and two runs synthesize different identifiers whenever their clock readings or their
  random draws differ.
\<close>

theorem no_identifier_never_duplicate:
  "\<not> truthy (messageId mail) \<Longrightarrow> \<not> truthy (headerMessageId mail) \<Longrightarrow>
   \<not> isAlreadyForwarded st mail \<and>
   fst (processEmail cfg env st mail) \<noteq> SkippedDuplicate \<and>
   getMessageId env mail = showInt (idTime env) @ ''-'' @ idRandom env \<and>
   forwardedIds (fst (snd (processEmail cfg env st mail)))
     = insert (showInt (idTime env) @ ''-'' @ idRandom env) (forwardedIds st) \<and>
   (\<forall>env'. idTime env' \<noteq> idTime env \<or> idRandom env' \<noteq> idRandom env \<longrightarrow>
      getMessageId env' mail \<noteq> getMessageId env mail)"
proof -
  assume a: "\<not> truthy (messageId mail)" and b: "\<not> truthy (headerMessageId mail)"
  then have raw: "\<not> truthy (rawMessageId mail)"
    by (rule no_identifier_raw)
  then have nd: "\<not> isAlreadyForwarded st mail"
    by (simp add: isAlreadyForwarded_iff [of st mail env])
  have mid: "getMessageId env' mail = showInt (idTime env') @ ''-'' @ idRandom env'" for env'
    using raw by (auto simp: getMessageId_def orElse_def truthy_def split: option.splits)
  have fresh: "getMessageId env' mail \<noteq> getMessageId env mail"
    if "idTime env' \<noteq> idTime env \<or> idRandom env' \<noteq> idRandom env" for env'
    using that showInt_separator_inj [of "idTime env'" "idRandom env'" "idTime env" "idRandom env"]
    by (auto simp: mid)
  from nd processEmail_marks_processed [OF nd, of cfg env] mid [of env] fresh
  show ?thesis
    by auto
qed

theorem no_identifier_never_duplicate_witness:
  "\<not> truthy (messageId mailNoId) \<and> \<not> truthy (headerMessageId mailNoId) \<and>
   \<not> isAlreadyForwarded (stateW\<lparr>forwardedIds := {''1001-0.25'', []}\<rparr>) mailNoId \<and>
   getMessageId envW mailNoId = ''1001-0.25'' \<and>
   getMessageId (envW\<lparr>idTime := 1002\<rparr>) mailNoId \<noteq> getMessageId envW mailNoId"
proof -
  have a: "\<not> truthy (messageId mailNoId)" and b: "\<not> truthy (headerMessageId mailNoId)"
    by (simp_all add: mailNoId_def truthy_def)
  have s: "showInt 1001 = ''1001''"
    by code_simp
  have e: "idTime envW = 1001" "idRandom envW = ''0.25''"
    by (simp_all add: envW_def)
  note t = no_identifier_never_duplicate [OF a b, of "stateW\<lparr>forwardedIds := {''1001-0.25'', []}\<rparr>" cfgW envW]
  from t have "idTime (envW\<lparr>idTime := 1002\<rparr>) \<noteq> idTime envW \<or> idRandom (envW\<lparr>idTime := 1002\<rparr>) \<noteq> idRandom envW \<longrightarrow>
      getMessageId (envW\<lparr>idTime := 1002\<rparr>) mailNoId \<noteq> getMessageId envW mailNoId"
    by blast
  with a b t show ?thesis
    by (simp add: e s)
qed

subsection \<open>Orchestrator: when the message is marked processed\<close>

lemma sendLoop_events:
  "e \<in> set (snd (sendLoop cfg answers mail r M a le)) \<Longrightarrow> \<not> isAppendForwarded e \<and> \<not> isSendReply e"
proof (induction cfg answers mail r M a le rule: sendLoop.induct)
  case (1 cfg answers mail r M a le)
  show ?case
  proof (cases "of_int a \<le> M")
    case False
    with 1(2) show ?thesis
      by (subst (asm) sendLoop.simps) auto
  next
    case True
    show ?thesis
    proof (cases "answers a")
      case Accepted
      with True 1(2) show ?thesis
        by (subst (asm) sendLoop.simps) auto
    next
      case (Rejected msg)
      with True 1(2) have "e \<in> set (snd (sendLoop cfg answers mail r M (a + 1) msg)) \<or> isLog e \<or> isSendMail e \<or> (\<exists>ms. e = Wait ms)"
        by (subst (asm) sendLoop.simps) (auto simp: case_prod_beta split: if_splits)
      with 1(1) [OF True Rejected] show ?thesis
        by (cases e) auto
    qed
  qed
qed

lemma forwardEmail_events:
  "e \<in> set (allEvents (snd (forwardEmail cfg answers mail rule s))) \<Longrightarrow>
     \<not> isAppendForwarded e \<and> \<not> isSendReply e"
  by (auto simp: forwardEmail_def Let_def sendToRecipient_def dest: sendLoop_events)

lemma sendReplyNotification_events:
  "e \<in> set (allEvents (snd (sendReplyNotification cfg env mail results d))) \<Longrightarrow> isSendReply e"
  by (auto simp: sendReplyNotification_def Let_def split: option.splits if_splits)

text \<open>
  Claim C8. For a message that is not a duplicate: if the sender is not allowed, or the
  sender is allowed and no rule matches, the run marks the message processed (the
  identifier enters the dedup set and is appended to the dedup file) and returns; the
  state is otherwise unchanged, so there is no Task History entry, and the run performs
  only log calls and the dedup append: no delivery attempt and no notification. If a
  rule matches, the whole delivery (the events of \<open>forwardEmail\<close>, surrounded by log
  calls only) comes before the dedup append, the delivery itself appends nothing to the
  dedup file, and no delivery attempt and no further dedup append follows the append.
\<close>

theorem markProcessed_ordering:
  "\<not> isAlreadyForwarded st mail \<Longrightarrow>
   (\<not> isSenderAllowed cfg (orElse (fromAddress mail) []) \<longrightarrow>
      fst (processEmail cfg env st mail) = SenderNotAllowed \<and>
      fst (snd (processEmail cfg env st mail))
        = st\<lparr>forwardedIds := insert (getMessageId env mail) (forwardedIds st)\<rparr> \<and>
      list_all (\<lambda>e. isLog e \<or> isAppendForwarded e) (allEvents (snd (snd (processEmail cfg env st mail)))) \<and>
      AppendForwarded (getMessageId env mail @ [CHR 0x0A])
        \<in> set (allEvents (snd (snd (processEmail cfg env st mail))))) \<and>
   (isSenderAllowed cfg (orElse (fromAddress mail) []) \<and>
    matchRule cfg (orElse (mailSubject mail) ''(no subject)'') = None \<longrightarrow>
      fst (processEmail cfg env st mail) = NoMatchingRule \<and>
      fst (snd (processEmail cfg env st mail))
        = st\<lparr>forwardedIds := insert (getMessageId env mail) (forwardedIds st)\<rparr> \<and>
      list_all (\<lambda>e. isLog e \<or> isAppendForwarded e) (allEvents (snd (snd (processEmail cfg env st mail)))) \<and>
      AppendForwarded (getMessageId env mail @ [CHR 0x0A])
        \<in> set (allEvents (snd (snd (processEmail cfg env st mail))))) \<and>
   (\<forall>rule. isSenderAllowed cfg (orElse (fromAddress mail) []) \<and>
      matchRule cfg (orElse (mailSubject mail) ''(no subject)'') = Some rule \<longrightarrow>
      getMessageId env mail \<in> forwardedIds (fst (snd (processEmail cfg env st mail))) \<and>
      (\<exists>p q after.
         snd (snd (processEmail cfg env st mail))
           = (p @ snd (forwardEmail cfg (transport env) mail rule (orElse (fromAddress mail) [])) @ q)
             @ Seq (AppendForwarded (getMessageId env mail @ [CHR 0x0A])) # after \<and>
         list_all isLog (allEvents p) \<and> list_all isLog (allEvents q) \<and>
         list_all (\<lambda>e. \<not> isAppendForwarded e)
           (allEvents (snd (forwardEmail cfg (transport env) mail rule (orElse (fromAddress mail) [])))) \<and>
         list_all (\<lambda>e. \<not> isSendMail e \<and> \<not> isAppendForwarded e) (allEvents after)))"
proof (intro conjI impI allI)
  assume nd: "\<not> isAlreadyForwarded st mail" and na: "\<not> isSenderAllowed cfg (orElse (fromAddress mail) [])"
  from processEmail_disallowed [OF nd na, of env] obtain s1 s2 where
    eq: "processEmail cfg env st mail =
     (SenderNotAllowed, fst (saveForwardedId st (getMessageId env mail) (orElse (mailSubject mail) ''(no subject)'')),
      [Seq (Log INFO s1), Seq (Log WARN s2)]
        @ snd (saveForwardedId st (getMessageId env mail) (orElse (mailSubject mail) ''(no subject)'')))"
    by blast
  show "fst (processEmail cfg env st mail) = SenderNotAllowed"
    by (simp add: eq)
  show "fst (snd (processEmail cfg env st mail))
        = st\<lparr>forwardedIds := insert (getMessageId env mail) (forwardedIds st)\<rparr>"
    by (simp add: eq)
  show "list_all (\<lambda>e. isLog e \<or> isAppendForwarded e) (allEvents (snd (snd (processEmail cfg env st mail))))"
    by (simp add: eq)
  show "AppendForwarded (getMessageId env mail @ [CHR 0x0A])
        \<in> set (allEvents (snd (snd (processEmail cfg env st mail))))"
    by (simp add: eq)
next
  assume nd: "\<not> isAlreadyForwarded st mail"
    and h: "isSenderAllowed cfg (orElse (fromAddress mail) []) \<and>
      matchRule cfg (orElse (mailSubject mail) ''(no subject)'') = None"
  from h processEmail_unmatched [OF nd, of cfg env] obtain s1 s2 where
    eq: "processEmail cfg env st mail =
     (NoMatchingRule, fst (saveForwardedId st (getMessageId env mail) (orElse (mailSubject mail) ''(no subject)'')),
      [Seq (Log INFO s1), Seq (Log INFO s2)]
        @ snd (saveForwardedId st (getMessageId env mail) (orElse (mailSubject mail) ''(no subject)'')))"
    by blast
  show "fst (processEmail cfg env st mail) = NoMatchingRule"
    by (simp add: eq)
  show "fst (snd (processEmail cfg env st mail))
        = st\<lparr>forwardedIds := insert (getMessageId env mail) (forwardedIds st)\<rparr>"
    by (simp add: eq)
  show "list_all (\<lambda>e. isLog e \<or> isAppendForwarded e) (allEvents (snd (snd (processEmail cfg env st mail))))"
    by (simp add: eq)
  show "AppendForwarded (getMessageId env mail @ [CHR 0x0A])
        \<in> set (allEvents (snd (snd (processEmail cfg env st mail))))"
    by (simp add: eq)
next
  fix rule
  assume nd: "\<not> isAlreadyForwarded st mail"
    and h: "isSenderAllowed cfg (orElse (fromAddress mail) []) \<and>
      matchRule cfg (orElse (mailSubject mail) ''(no subject)'') = Some rule"
  then have al: "isSenderAllowed cfg (orElse (fromAddress mail) [])"
    and mr: "matchRule cfg (orElse (mailSubject mail) ''(no subject)'') = Some rule"
    by simp_all
  show "getMessageId env mail \<in> forwardedIds (fst (snd (processEmail cfg env st mail)))"
    by (simp add: processEmail_matched_state [OF nd al mr])
  let ?fevs = "snd (forwardEmail cfg (transport env) mail rule (orElse (fromAddress mail) []))"
  let ?nevs = "snd (sendReplyNotification cfg env mail
              (fst (forwardEmail cfg (transport env) mail rule (orElse (fromAddress mail) [])))
              (endTime env - startTime env))"
  from processEmail_matched_trace [OF nd al mr, of env] obtain s1 l2 s2 s3 where
    tr: "snd (snd (processEmail cfg env st mail)) =
        Seq (Log INFO s1) # ?fevs
        @ [Seq (Log l2 s2), Seq (AppendForwarded (getMessageId env mail @ [CHR 0x0A])), Seq (Log INFO s3)]
        @ ?nevs"
    by blast
  have f: "list_all (\<lambda>e. \<not> isAppendForwarded e) (allEvents ?fevs)"
    using forwardEmail_events by (auto simp: list_all_iff)
  have n: "list_all (\<lambda>e. \<not> isSendMail e \<and> \<not> isAppendForwarded e) (allEvents ?nevs)"
  proof -
    have "\<not> isSendMail e \<and> \<not> isAppendForwarded e" if "e \<in> set (allEvents ?nevs)" for e
      using sendReplyNotification_events [OF that] by (cases e) auto
    then show ?thesis by (auto simp: list_all_iff)
  qed
  have "snd (snd (processEmail cfg env st mail))
           = ([Seq (Log INFO s1)] @ ?fevs @ [Seq (Log l2 s2)])
             @ Seq (AppendForwarded (getMessageId env mail @ [CHR 0x0A])) # (Seq (Log INFO s3) # ?nevs) \<and>
         list_all isLog (allEvents [Seq (Log INFO s1)]) \<and> list_all isLog (allEvents [Seq (Log l2 s2)]) \<and>
         list_all (\<lambda>e. \<not> isAppendForwarded e) (allEvents ?fevs) \<and>
         list_all (\<lambda>e. \<not> isSendMail e \<and> \<not> isAppendForwarded e) (allEvents (Seq (Log INFO s3) # ?nevs))"
    using f n by (simp add: tr)
  then show "\<exists>p q after.
         snd (snd (processEmail cfg env st mail))
           = (p @ ?fevs @ q)
             @ Seq (AppendForwarded (getMessageId env mail @ [CHR 0x0A])) # after \<and>
         list_all isLog (allEvents p) \<and> list_all isLog (allEvents q) \<and>
         list_all (\<lambda>e. \<not> isAppendForwarded e) (allEvents ?fevs) \<and>
         list_all (\<lambda>e. \<not> isSendMail e \<and> \<not> isAppendForwarded e) (allEvents after)"
    by blast
qed


theorem markProcessed_ordering_witness:
  "fst (processEmail cfgW envW initialState mailEve) = SenderNotAllowed \<and>
   fst (snd (processEmail cfgW envW initialState mailEve))
     = initialState\<lparr>forwardedIds := {''<m1@example.com>''}\<rparr> \<and>
   list_all (\<lambda>e. isLog e \<or> isAppendForwarded e)
     (allEvents (snd (snd (processEmail cfgW envW initialState mailEve)))) \<and>
   fst (processEmail cfgW envW initialState mailHello) = NoMatchingRule \<and>
   fst (snd (processEmail cfgW envW initialState mailHello))
     = initialState\<lparr>forwardedIds := {''<m1@example.com>''}\<rparr> \<and>
   list_all (\<lambda>e. isLog e \<or> isAppendForwarded e)
     (allEvents (snd (snd (processEmail cfgW envW initialState mailHello)))) \<and>
   ''<m1@example.com>'' \<in> forwardedIds (fst (snd (processEmail cfgW envW initialState mailW))) \<and>
   (\<exists>p q after.
      snd (snd (processEmail cfgW envW initialState mailW))
        = (p @ snd (forwardEmail cfgW transportW mailW ruleW ''bob@example.com'') @ q)
          @ Seq (AppendForwarded (''<m1@example.com>'' @ [CHR 0x0A])) # after \<and>
      list_all isLog (allEvents p) \<and> list_all isLog (allEvents q) \<and>
      list_all (\<lambda>e. \<not> isAppendForwarded e)
        (allEvents (snd (forwardEmail cfgW transportW mailW ruleW ''bob@example.com''))) \<and>
      list_all (\<lambda>e. \<not> isSendMail e \<and> \<not> isAppendForwarded e) (allEvents after))"
proof -
  have nd: "\<not> isAlreadyForwarded initialState mailEve" "\<not> isAlreadyForwarded initialState mailHello"
    "\<not> isAlreadyForwarded initialState mailW"
    by (simp_all add: isAlreadyForwarded_def initialState_def split: option.splits)
  have h1: "\<not> isSenderAllowed cfgW (orElse (fromAddress mailEve) [])"
    by code_simp
  have h2: "isSenderAllowed cfgW (orElse (fromAddress mailHello) []) \<and>
      matchRule cfgW (orElse (mailSubject mailHello) ''(no subject)'') = None"
    by code_simp
  have h3: "isSenderAllowed cfgW (orElse (fromAddress mailW) []) \<and>
      matchRule cfgW (orElse (mailSubject mailW) ''(no subject)'') = Some ruleW"
    by code_simp
  have ids: "getMessageId envW mailEve = ''<m1@example.com>''" "getMessageId envW mailHello = ''<m1@example.com>''"
    "getMessageId envW mailW = ''<m1@example.com>''"
    by (simp_all add: getMessageId_def rawMessageId_def truthy_def orElse_def mailW_def mailEve_def mailHello_def)
  have v: "orElse (fromAddress mailW) [] = ''bob@example.com''" "transport envW = transportW"
    "forwardedIds initialState = {}"
    by (simp_all add: orElse_def mailW_def envW_def initialState_def)
  note t1 = markProcessed_ordering [OF nd(1), of cfgW envW, THEN conjunct1, rule_format, OF h1]
  note t2 = markProcessed_ordering [OF nd(2), of cfgW envW, THEN conjunct2, THEN conjunct1, rule_format, OF h2]
  note t3 = markProcessed_ordering [OF nd(3), of cfgW envW, THEN conjunct2, THEN conjunct2, rule_format, OF h3]
  from t1 t2 t3 show ?thesis
    by (simp add: ids v)
qed

subsection \<open>Orchestrator: aggregation and notification\<close>

lemma unshiftTask_hd: "unshiftTask t ts \<noteq> [] \<and> hd (unshiftTask t ts) = t"
  by (cases ts) (simp_all add: unshiftTask_def Let_def)

lemma sendReplyNotification_outcome:
  "fst (sendReplyNotification cfg env mail results d)
     = (if truthy (fromAddress mail) then notifyOutcome env else Accepted)"
  by (simp add: sendReplyNotification_def truthy_def Let_def split: option.splits)

lemma sendReplyNotification_trace:
  "snd (sendReplyNotification cfg env mail results d)
     = (if truthy (fromAddress mail)
        then [Seq (SendReply (smtpUser cfg) (orElse (fromAddress mail) [])
                \<lparr>replySubject = orElse (mailSubject mail) ''(no subject)'', replyResults = results,
                  replyDuration = d, replyTimestamp = notifyTimestamp env\<rparr>
                (notifyOutcome env))]
        else [])"
  by (simp add: sendReplyNotification_def truthy_def orElse_def Let_def split: option.splits)

lemma failCount_eq:
  "length results - length (filter success results) = length (filter (\<lambda>r. \<not> success r) results)"
  using sum_length_filter_compl [of success results] by simp

text \<open>
  Claim C4. For a matched message whose run completes, the ForwardTask at the head of
  Task History aggregates the results of all \<open>N\<close> recipients of the rule, one per
  recipient and in recipient order whatever the order of completion: its status is
  \<open>success\<close> exactly when every result succeeded and \<open>failed\<close> exactly when some
  result failed; when \<open>failCount > 0\<close> its error summary is the string
  \<open><failCount>/<N> failed\<close>, and it has none otherwise. The notification, when one is
  sent, carries the same \<open>N\<close> results.
\<close>

theorem aggregate_task_status:
  "\<not> isAlreadyForwarded st mail \<Longrightarrow> isSenderAllowed cfg (orElse (fromAddress mail) []) \<Longrightarrow>
   matchRule cfg (orElse (mailSubject mail) ''(no subject)'') = Some rule \<Longrightarrow>
   fst (processEmail cfg env st mail) = Forwarded \<Longrightarrow>
   (let results = fst (forwardEmail cfg (transport env) mail rule (orElse (fromAddress mail) []));
        N = length (recipients rule);
        failCount = length (filter (\<lambda>r. \<not> success r) results);
        history = tasks (fst (snd (processEmail cfg env st mail)));
        task = hd history
    in history \<noteq> [] \<and>
       length results = N \<and> map email results = recipients rule \<and>
       task_recipients task = recipients rule \<and> matchedTag task = tag rule \<and>
       (status task = Success \<longleftrightarrow> (\<forall>r \<in> set results. success r)) \<and>
       (status task = Failed \<longleftrightarrow> (\<exists>r \<in> set results. \<not> success r)) \<and>
       (failCount > 0 \<longrightarrow>
          task_error task = Some (showNat failCount @ ''/'' @ showNat N @ '' failed'')) \<and>
       (failCount = 0 \<longrightarrow> task_error task = None) \<and>
       (\<forall>f t d out. Seq (SendReply f t d out) \<in> set (snd (snd (processEmail cfg env st mail)))
          \<longrightarrow> replyResults d = results))"
proof -
  assume nd: "\<not> isAlreadyForwarded st mail" and al: "isSenderAllowed cfg (orElse (fromAddress mail) [])"
    and mr: "matchRule cfg (orElse (mailSubject mail) ''(no subject)'') = Some rule"
    and fw: "fst (processEmail cfg env st mail) = Forwarded"
  let ?results = "fst (forwardEmail cfg (transport env) mail rule (orElse (fromAddress mail) []))"
  let ?fc = "length (filter (\<lambda>r. \<not> success r) ?results)"
  let ?history = "tasks (fst (snd (processEmail cfg env st mail)))"
  let ?task = "\<lparr>task_id = taskId st + 1,
                 task_timestamp = taskTimestamp env,
                 task_subject = orElse (mailSubject mail) ''(no subject)'',
                 task_from = orElse (fromText mail) ''unknown'',
                 matchedTag = tag rule,
                 task_recipients = recipients rule,
                 status = (if ?fc > 0 then Failed else Success),
                 task_error = (if ?fc > 0
                               then Some (showNat ?fc @ ''/'' @ showNat (length ?results) @ '' failed'')
                               else None)\<rparr>"
  have h: "?history = unshiftTask ?task (tasks st)"
    using processEmail_matched_tasks [OF nd al mr, of env] fw
    by (simp add: Let_def failCount_eq)
  have ne: "?history \<noteq> []" and hd: "hd ?history = ?task"
    using unshiftTask_hd [of ?task "tasks st"] by (simp_all add: h)
  have len: "length ?results = length (recipients rule)"
    by (rule forwardEmail_length)
  have em: "map email ?results = recipients rule"
    by (rule nth_equalityI) (simp_all add: forwardEmail_length forwardEmail_nth sendToRecipient_email)
  have fc: "?fc > 0 \<longleftrightarrow> (\<exists>r \<in> set ?results. \<not> success r)"
    by (simp add: filter_empty_conv)
  have nt: "replyResults d = ?results"
    if "Seq (SendReply f t d out) \<in> set (snd (snd (processEmail cfg env st mail)))" for f t d out
  proof -
    from processEmail_matched_trace [OF nd al mr, of env] obtain s1 l2 s2 s3 where
      tr: "snd (snd (processEmail cfg env st mail)) =
        Seq (Log INFO s1) # snd (forwardEmail cfg (transport env) mail rule (orElse (fromAddress mail) []))
        @ [Seq (Log l2 s2), Seq (AppendForwarded (getMessageId env mail @ [CHR 0x0A])), Seq (Log INFO s3)]
        @ snd (sendReplyNotification cfg env mail ?results (endTime env - startTime env))"
      by blast
    have "Seq (SendReply f t d out) \<notin> set (snd (forwardEmail cfg (transport env) mail rule (orElse (fromAddress mail) [])))"
      by (simp add: forwardEmail_def Let_def)
    with that have "Seq (SendReply f t d out)
        \<in> set (snd (sendReplyNotification cfg env mail ?results (endTime env - startTime env)))"
      by (simp add: tr)
    then show ?thesis
      by (simp add: sendReplyNotification_trace split: if_splits)
  qed
  show ?thesis
    unfolding Let_def using ne len em fc nt by (simp add: hd) 
qed


lemma exampleW_facts:
  "\<not> isAlreadyForwarded initialState mailW"
  "isSenderAllowed cfgW (orElse (fromAddress mailW) [])"
  "matchRule cfgW (orElse (mailSubject mailW) ''(no subject)'') = Some ruleW"
  "truthy (fromAddress mailW)"
  "transport envW = transportW"
  "orElse (fromAddress mailW) [] = ''bob@example.com''"
proof -
  show "\<not> isAlreadyForwarded initialState mailW"
    by (simp add: isAlreadyForwarded_def initialState_def split: option.splits)
  show "isSenderAllowed cfgW (orElse (fromAddress mailW) [])"
    by code_simp
  show "matchRule cfgW (orElse (mailSubject mailW) ''(no subject)'') = Some ruleW"
    by code_simp
  show "truthy (fromAddress mailW)"
    by (simp add: truthy_def mailW_def)
  show "transport envW = transportW"
    by (simp add: envW_def)
  show "orElse (fromAddress mailW) [] = ''bob@example.com''"
    by (simp add: orElse_def mailW_def)
qed

lemma exampleW_results:
  "map success (fst (forwardEmail cfgW transportW mailW ruleW ''bob@example.com'')) = [True, False]"
  by code_simp

theorem aggregate_task_status_witness:
  "fst (processEmail cfgW envW initialState mailW) = Forwarded \<and>
   length (fst (forwardEmail cfgW transportW mailW ruleW ''bob@example.com'')) = 2 \<and>
   map email (fst (forwardEmail cfgW transportW mailW ruleW ''bob@example.com'')) = [''a@x.com'', ''b@x.com''] \<and>
   status (hd (tasks (fst (snd (processEmail cfgW envW initialState mailW))))) = Failed \<and>
   task_error (hd (tasks (fst (snd (processEmail cfgW envW initialState mailW))))) = Some ''1/2 failed''"
proof -
  have fw: "fst (processEmail cfgW envW initialState mailW) = Forwarded"
    using exampleW_facts
    by (simp add: processEmail_matched_outcome sendReplyNotification_outcome envW_def)
  have fc: "length (filter (\<lambda>r. \<not> success r) (fst (forwardEmail cfgW transportW mailW ruleW ''bob@example.com''))) = 1"
  proof -
    have "length (filter (\<lambda>r. \<not> success r) (fst (forwardEmail cfgW transportW mailW ruleW ''bob@example.com'')))
        = length (filter (\<lambda>b. \<not> b) (map success (fst (forwardEmail cfgW transportW mailW ruleW ''bob@example.com''))))"
      by (simp add: filter_map comp_def)
    then show ?thesis
      by (simp add: exampleW_results)
  qed
  have sh: "showNat (Suc 0) = ''1''" "showNat (Suc (Suc 0)) = ''2''"
    by code_simp+
  have ex: "\<exists>r \<in> set (fst (forwardEmail cfgW transportW mailW ruleW ''bob@example.com'')). \<not> success r"
  proof (rule ccontr)
    assume "\<not> ?thesis"
    then have "filter (\<lambda>r. \<not> success r) (fst (forwardEmail cfgW transportW mailW ruleW ''bob@example.com'')) = []"
      by (simp add: filter_empty_conv)
    with fc show False by simp
  qed
  have rs: "recipients ruleW = [''a@x.com'', ''b@x.com'']"
    by (simp add: ruleW_def)
  note t = aggregate_task_status [OF exampleW_facts(1) exampleW_facts(2) exampleW_facts(3) fw, unfolded Let_def]
  from t fw ex show ?thesis
    by (simp add: exampleW_facts(5,6) fc sh rs)
qed


text \<open>
  Claim C2 says that a failing notification send is swallowed and that the ForwardTask
  is appended all the same. \<open>processEmail\<close> awaits \<open>sendReplyNotification\<close> without a
  \<open>try\<close>: for the matched message \<open>mailW\<close> and a transport that refuses the
  notification with \<open>boom\<close>, the promise of \<open>processEmail\<close> rejects with \<open>boom\<close> and
  Task History stays empty.
\<close>

theorem notification_failure_counterexample:
  "matchRule cfgW (orElse (mailSubject mailW) ''(no subject)'') = Some ruleW \<and>
   notifyOutcome envBoom = Rejected ''boom'' \<and>
   fst (processEmail cfgW envBoom initialState mailW) = Thrown ''boom'' \<and>
   tasks (fst (snd (processEmail cfgW envBoom initialState mailW))) = []"
proof -
  have o: "fst (processEmail cfgW envBoom initialState mailW) = Thrown ''boom''"
    using exampleW_facts
    by (simp add: processEmail_matched_outcome sendReplyNotification_outcome envBoom_def)
  have "tasks (fst (snd (processEmail cfgW envBoom initialState mailW))) = tasks initialState"
    using processEmail_matched_tasks [OF exampleW_facts(1) exampleW_facts(2) exampleW_facts(3), of envBoom]
    by (simp add: o Let_def)
  with o show ?thesis
    by (simp add: exampleW_facts(3) envBoom_def initialState_def)
qed

text \<open>
  Claim C2, amended. For a matched message, if the notification send to the original
  sender fails, \<open>processEmail\<close> does not catch the failure: its promise rejects with the
  transport's error and the failed send is the last thing the run does (nothing is logged
  after it). The message remains marked processed, because the identifier entered the
  dedup set before the notification was attempted; the task id counter has been advanced,
  but the ForwardTask is not appended to Task History. If the notification is accepted,
  or no sender address is known so that none is sent, the run completes and the
  ForwardTask with the new task id is put at the head of Task History.
\<close>

theorem notification_failure_propagates:
  "\<not> isAlreadyForwarded st mail \<Longrightarrow> isSenderAllowed cfg (orElse (fromAddress mail) []) \<Longrightarrow>
   matchRule cfg (orElse (mailSubject mail) ''(no subject)'') = Some rule \<Longrightarrow>
   (truthy (fromAddress mail) \<and> notifyOutcome env = Rejected err \<longrightarrow>
      fst (processEmail cfg env st mail) = Thrown err \<and>
      getMessageId env mail \<in> forwardedIds (fst (snd (processEmail cfg env st mail))) \<and>
      tasks (fst (snd (processEmail cfg env st mail))) = tasks st \<and>
      taskId (fst (snd (processEmail cfg env st mail))) = taskId st + 1 \<and>
      (\<exists>before f t d. snd (snd (processEmail cfg env st mail))
          = before @ [Seq (SendReply f t d (Rejected err))])) \<and>
   (\<not> truthy (fromAddress mail) \<or> notifyOutcome env = Accepted \<longrightarrow>
      fst (processEmail cfg env st mail) = Forwarded \<and>
      getMessageId env mail \<in> forwardedIds (fst (snd (processEmail cfg env st mail))) \<and>
      tasks (fst (snd (processEmail cfg env st mail)))
        = unshiftTask (hd (tasks (fst (snd (processEmail cfg env st mail))))) (tasks st) \<and>
      task_id (hd (tasks (fst (snd (processEmail cfg env st mail))))) = taskId st + 1)"
proof (intro conjI impI)
  assume nd: "\<not> isAlreadyForwarded st mail" and al: "isSenderAllowed cfg (orElse (fromAddress mail) [])"
    and mr: "matchRule cfg (orElse (mailSubject mail) ''(no subject)'') = Some rule"
  note out = processEmail_matched_outcome [OF nd al mr, of env]
  note sta = processEmail_matched_state [OF nd al mr, of env]
  note tas = processEmail_matched_tasks [OF nd al mr, of env]
  {
    assume h: "truthy (fromAddress mail) \<and> notifyOutcome env = Rejected err"
    show o: "fst (processEmail cfg env st mail) = Thrown err"
      using h by (simp add: out sendReplyNotification_outcome)
    show "getMessageId env mail \<in> forwardedIds (fst (snd (processEmail cfg env st mail)))"
      by (simp add: sta)
    show "tasks (fst (snd (processEmail cfg env st mail))) = tasks st"
      by (simp add: tas o Let_def)
    show "taskId (fst (snd (processEmail cfg env st mail))) = taskId st + 1"
      by (simp add: sta)
    from processEmail_matched_trace [OF nd al mr, of env] obtain s1 l2 s2 s3 where
      tr: "snd (snd (processEmail cfg env st mail)) =
        Seq (Log INFO s1) # snd (forwardEmail cfg (transport env) mail rule (orElse (fromAddress mail) []))
        @ [Seq (Log l2 s2), Seq (AppendForwarded (getMessageId env mail @ [CHR 0x0A])), Seq (Log INFO s3)]
        @ snd (sendReplyNotification cfg env mail
                 (fst (forwardEmail cfg (transport env) mail rule (orElse (fromAddress mail) [])))
                 (endTime env - startTime env))"
      by blast
    have "\<exists>f t d. snd (sendReplyNotification cfg env mail
                 (fst (forwardEmail cfg (transport env) mail rule (orElse (fromAddress mail) [])))
                 (endTime env - startTime env)) = [Seq (SendReply f t d (Rejected err))]"
      using h by (simp add: sendReplyNotification_trace)
    then obtain f t d where "snd (snd (processEmail cfg env st mail)) =
        (Seq (Log INFO s1) # snd (forwardEmail cfg (transport env) mail rule (orElse (fromAddress mail) []))
        @ [Seq (Log l2 s2), Seq (AppendForwarded (getMessageId env mail @ [CHR 0x0A])), Seq (Log INFO s3)])
        @ [Seq (SendReply f t d (Rejected err))]"
      using tr by auto
    then show "\<exists>before f t d. snd (snd (processEmail cfg env st mail))
          = before @ [Seq (SendReply f t d (Rejected err))]"
      by blast
  }
  {
    assume h: "\<not> truthy (fromAddress mail) \<or> notifyOutcome env = Accepted"
    show o: "fst (processEmail cfg env st mail) = Forwarded"
      using h by (auto simp: out sendReplyNotification_outcome)
    show "getMessageId env mail \<in> forwardedIds (fst (snd (processEmail cfg env st mail)))"
      by (simp add: sta)
    from tas o obtain task where
      t: "tasks (fst (snd (processEmail cfg env st mail))) = unshiftTask task (tasks st)"
      and i: "task_id task = taskId st + 1"
      by (simp add: Let_def)
    from t unshiftTask_hd [of task "tasks st"]
    have hd: "hd (tasks (fst (snd (processEmail cfg env st mail)))) = task"
      by simp
    show "tasks (fst (snd (processEmail cfg env st mail)))
        = unshiftTask (hd (tasks (fst (snd (processEmail cfg env st mail))))) (tasks st)"
      unfolding hd by (rule t)
    show "task_id (hd (tasks (fst (snd (processEmail cfg env st mail))))) = taskId st + 1"
      by (simp only: hd i)
  }
qed

theorem notification_failure_propagates_witness:
  "truthy (fromAddress mailW) \<and> notifyOutcome envBoom = Rejected ''boom'' \<and>
   fst (processEmail cfgW envBoom initialState mailW) = Thrown ''boom'' \<and>
   getMessageId envBoom mailW \<in> forwardedIds (fst (snd (processEmail cfgW envBoom initialState mailW))) \<and>
   tasks (fst (snd (processEmail cfgW envBoom initialState mailW))) = tasks initialState \<and>
   taskId (fst (snd (processEmail cfgW envBoom initialState mailW))) = taskId initialState + 1 \<and>
   fst (processEmail cfgW envW initialState mailW) = Forwarded \<and>
   task_id (hd (tasks (fst (snd (processEmail cfgW envW initialState mailW))))) = taskId initialState + 1"
proof -
  have a: "truthy (fromAddress mailW) \<and> notifyOutcome envBoom = Rejected ''boom''"
    by (simp add: exampleW_facts(4) envBoom_def)
  have b: "\<not> truthy (fromAddress mailW) \<or> notifyOutcome envW = Accepted"
    by (simp add: envW_def)
  note t1 = notification_failure_propagates [OF exampleW_facts(1) exampleW_facts(2) exampleW_facts(3),
      of envBoom "''boom''", THEN conjunct1, rule_format, OF a]
  note t2 = notification_failure_propagates [OF exampleW_facts(1) exampleW_facts(2) exampleW_facts(3),
      of envW "''boom''", THEN conjunct2, rule_format, OF b]
  from a t1 t2 show ?thesis
    by simp
qed

subsection \<open>Task History\<close>








end
